theory Spec2Isabelle
  imports Complex_Main
begin

section \<open>Multi-armed bandits: the environment, the agent loop and five policies\<close>

text \<open>
  A shallow embedding of the classes of \<^verbatim>\<open>Multi-armed-Bandits.ipynb\<close>:
  \<^verbatim>\<open>FruitSlotMachine\<close>, \<^verbatim>\<open>AbstractMABAlgorithm\<close> and its subclasses
  \<^verbatim>\<open>UniformExploration\<close>, \<^verbatim>\<open>EpsilonGreedy\<close>, \<^verbatim>\<open>UCB\<close>, \<^verbatim>\<open>BayesianUCB\<close> and
  \<^verbatim>\<open>ThompsonSamping\<close>.

  Conventions of the model.
  \<^item> Python floats and numpy \<^verbatim>\<open>float64\<close> values are idealised as \<^typ>\<open>real\<close>; the
    pull counts of the numpy integer array \<^verbatim>\<open>N_a\<close> are \<^typ>\<open>nat\<close> (a count grows by
    one per round, so the fixed width of the array's element type is out of reach).
  \<^item> An exception is a value \<open>Inl e\<close> of the result type \<open>error + 'a\<close>.
  \<^item> numpy's process-wide random generator is an explicit state of type \<open>'g\<close>, threaded
    through every function that draws from it, together with a \<open>source\<close> that says
    what each primitive returns from a state.
\<close>

subsection \<open>Errors and the random source\<close>

datatype error =
    AssertionError
  | IndexError
  | TypeError
  | ValueError
  | AttributeError
  | DivideByZero

text \<open>
  \<open>np_random\<close> is \<^verbatim>\<open>np.random.random()\<close>, \<open>np_beta a b\<close> one draw of
  \<^verbatim>\<open>np.random.beta\<close> with shape parameters \<open>a\<close> and \<open>b\<close>, and \<open>np_randint_raw\<close> the raw
  integer from which \<^verbatim>\<open>np.random.randint(low, high)\<close> derives its result.
\<close>

record 'g source =
  np_random :: "'g \<Rightarrow> real \<times> 'g"
  np_randint_raw :: "'g \<Rightarrow> nat \<times> 'g"
  np_beta :: "real \<Rightarrow> real \<Rightarrow> 'g \<Rightarrow> real \<times> 'g"

text \<open>\<^verbatim>\<open>np.random.randint(0, high)\<close>: a value in \<open>[0, high)\<close>; \<^verbatim>\<open>ValueError\<close> when \<open>high \<le> 0\<close>.\<close>

definition np_randint :: "'g source \<Rightarrow> nat \<Rightarrow> 'g \<Rightarrow> error + (nat \<times> 'g)" where
  "np_randint src high g =
     (if high = 0 then Inl ValueError
      else (case np_randint_raw src g of (r, g1) \<Rightarrow> Inr (r mod high, g1)))"

text \<open>
  \<^verbatim>\<open>np.random.beta(a, b)\<close> on two arrays: one draw per position, in order; numpy
  refuses the call with \<^verbatim>\<open>ValueError\<close> when some shape parameter is not positive.
\<close>

fun beta_draws :: "'g source \<Rightarrow> (real \<times> real) list \<Rightarrow> 'g \<Rightarrow> real list \<times> 'g" where
  "beta_draws src [] g = ([], g)"
| "beta_draws src ((a, b) # ps) g =
     (case np_beta src a b g of (x, g1) \<Rightarrow>
        (case beta_draws src ps g1 of (xs, g2) \<Rightarrow> (x # xs, g2)))"

definition np_random_beta ::
  "'g source \<Rightarrow> real list \<Rightarrow> real list \<Rightarrow> 'g \<Rightarrow> error + (real list \<times> 'g)" where
  "np_random_beta src as bs g =
     (if list_ex (\<lambda>a. a \<le> 0) as then Inl ValueError
      else if list_ex (\<lambda>b. b \<le> 0) bs then Inl ValueError
      else Inr (beta_draws src (zip as bs) g))"

subsection \<open>Python and numpy primitives\<close>

text \<open>Indexing a Python list: a negative index counts from the end.\<close>

definition py_index :: "'a list \<Rightarrow> int \<Rightarrow> error + 'a" where
  "py_index xs i =
     (if 0 \<le> i \<and> i < int (length xs) then Inr (xs ! nat i)
      else if - int (length xs) \<le> i \<and> i < 0 then Inr (xs ! nat (int (length xs) + i))
      else Inl IndexError)"

text \<open>Python's \<^verbatim>\<open>max\<close> of a list: the first largest element; \<^verbatim>\<open>ValueError\<close> on \<^verbatim>\<open>[]\<close>.\<close>

fun py_max :: "real list \<Rightarrow> error + real" where
  "py_max [] = Inl ValueError"
| "py_max (x # xs) = Inr (fold (\<lambda>y m. if m < y then y else m) xs x)"

text \<open>
  \<^verbatim>\<open>np.argmax\<close> and \<^verbatim>\<open>np.argmin\<close> scan from the left and move to a later position only on
  a strictly better value, so the first occurrence wins; both raise \<^verbatim>\<open>ValueError\<close> on
  an empty sequence. \<open>scan_best better xs i bi bv\<close> is the scan at position \<open>i\<close>, the
  best so far being \<open>bv\<close> at position \<open>bi\<close>.
\<close>

fun scan_best :: "('a \<Rightarrow> 'a \<Rightarrow> bool) \<Rightarrow> 'a list \<Rightarrow> nat \<Rightarrow> nat \<Rightarrow> 'a \<Rightarrow> nat" where
  "scan_best better [] i bi bv = bi"
| "scan_best better (x # xs) i bi bv =
     (if better x bv then scan_best better xs (Suc i) i x
      else scan_best better xs (Suc i) bi bv)"

fun np_argmax :: "real list \<Rightarrow> error + nat" where
  "np_argmax [] = Inl ValueError"
| "np_argmax (x # xs) = Inr (scan_best (\<lambda>y m. m < y) xs 1 0 x)"

fun np_argmin :: "nat list \<Rightarrow> error + nat" where
  "np_argmin [] = Inl ValueError"
| "np_argmin (x # xs) = Inr (scan_best (\<lambda>y m. y < m) xs 1 0 x)"

subsection \<open>The environment: \<^verbatim>\<open>FruitSlotMachine\<close>\<close>

record env =
  bandit_name :: string
  num_arms :: nat
  distribution :: "real list"
  best_cumulative_reward :: real

fun draw_randoms :: "'g source \<Rightarrow> nat \<Rightarrow> 'g \<Rightarrow> real list \<times> 'g" where
  "draw_randoms src 0 g = ([], g)"
| "draw_randoms src (Suc k) g =
     (case np_random src g of (x, g1) \<Rightarrow>
        (case draw_randoms src k g1 of (xs, g2) \<Rightarrow> (x # xs, g2)))"

text \<open>
  \<^verbatim>\<open>FruitSlotMachine.__init__(distribution=None)\<close>: three arms; a supplied distribution
  is asserted to have three entries, a missing one is drawn.
\<close>

definition FruitSlotMachine_init ::
  "'g source \<Rightarrow> real list option \<Rightarrow> 'g \<Rightarrow> error + (env \<times> 'g)" where
  "FruitSlotMachine_init src distr g =
     (case (case distr of
              Some d \<Rightarrow> if length d = 3 then Inr (d, g) else Inl AssertionError
            | None \<Rightarrow> Inr (draw_randoms src 3 g)) of
        Inl e \<Rightarrow> Inl e
      | Inr (d, g1) \<Rightarrow>
          (case py_max d of
             Inl e \<Rightarrow> Inl e
           | Inr m \<Rightarrow>
               Inr (\<lparr>bandit_name = ''Fruit Machine'', num_arms = 3,
                     distribution = d, best_cumulative_reward = m\<rparr>, g1)))"

text \<open>
  \<^verbatim>\<open>FruitSlotMachine.get_reward(arm_choice)\<close>. The left operand of \<^verbatim>\<open><\<close>, the draw, is
  evaluated before the list is indexed. The environment is read only: the function
  returns the reward and the generator, nothing of \<open>e\<close> is written.
\<close>

definition get_reward :: "'g source \<Rightarrow> env \<Rightarrow> int \<Rightarrow> 'g \<Rightarrow> error + (int \<times> 'g)" where
  "get_reward src e arm_choice g =
     (case np_random src g of (u, g1) \<Rightarrow>
        (case py_index (distribution e) arm_choice of
           Inl err \<Rightarrow> Inl err
         | Inr p \<Rightarrow> Inr (if u < p then 1 else 0, g1)))"

subsection \<open>The agent: \<^verbatim>\<open>AbstractMABAlgorithm\<close> and its subclasses\<close>

text \<open>
  The belief state of each subclass. \<^verbatim>\<open>EpsilonGreedy\<close> stores \<^verbatim>\<open>epsilon\<close>, which may be
  \<^verbatim>\<open>None\<close>; \<^verbatim>\<open>BayesianUCB\<close> stores \<^verbatim>\<open>sigma\<close>, \<^verbatim>\<open>a\<close> and \<^verbatim>\<open>b\<close>.
\<close>

datatype policy =
    UniformExploration "real list"
  | EpsilonGreedy "real option" "real list"
  | UCB "real list"
  | BayesianUCB real "real list" "real list"
  | ThompsonSamping "real list" "real list"

text \<open>\<open>iteration\<close> is the attribute \<^verbatim>\<open>self.iteration\<close>, which exists only once \<^verbatim>\<open>run\<close> has set it.\<close>

record agent =
  MABproblem :: env
  N_a :: "nat list"
  regret :: real
  regret_history :: "real list"
  iteration :: "nat option"
  belief :: policy

definition AbstractMABAlgorithm_init :: "env \<Rightarrow> policy \<Rightarrow> agent" where
  "AbstractMABAlgorithm_init e p =
     \<lparr>MABproblem = e, N_a = replicate (num_arms e) 0, regret = 0,
      regret_history = [0], iteration = None, belief = p\<rparr>"

definition UniformExploration_init :: "env \<Rightarrow> real \<Rightarrow> agent" where
  "UniformExploration_init e initial_probability =
     AbstractMABAlgorithm_init e
       (UniformExploration (replicate (num_arms e) initial_probability))"

definition EpsilonGreedy_init :: "env \<Rightarrow> real option \<Rightarrow> real \<Rightarrow> error + agent" where
  "EpsilonGreedy_init e epsilon initial_probability =
     (if (case epsilon of None \<Rightarrow> True | Some eps \<Rightarrow> 0 \<le> eps \<and> eps \<le> 1)
      then Inr (AbstractMABAlgorithm_init e
                  (EpsilonGreedy epsilon (replicate (num_arms e) initial_probability)))
      else Inl AssertionError)"

definition UCB_init :: "env \<Rightarrow> real \<Rightarrow> agent" where
  "UCB_init e initial_probability =
     AbstractMABAlgorithm_init e (UCB (replicate (num_arms e) initial_probability))"

definition BayesianUCB_init :: "env \<Rightarrow> real \<Rightarrow> real \<Rightarrow> real \<Rightarrow> agent" where
  "BayesianUCB_init e sigma initial_a initial_b =
     AbstractMABAlgorithm_init e
       (BayesianUCB sigma (replicate (num_arms e) initial_a)
          (replicate (num_arms e) initial_b))"

definition ThompsonSamping_init :: "env \<Rightarrow> real \<Rightarrow> real \<Rightarrow> agent" where
  "ThompsonSamping_init e initial_a initial_b =
     AbstractMABAlgorithm_init e
       (ThompsonSamping (replicate (num_arms e) initial_a)
          (replicate (num_arms e) initial_b))"

subsubsection \<open>\<^verbatim>\<open>choose_arm\<close>\<close>

text \<open>\<^verbatim>\<open>UCB.choose_arm\<close>: the scores, elementwise over the two arrays, at \<open>t\<close>.\<close>

definition ucb_scores :: "real list \<Rightarrow> nat list \<Rightarrow> nat \<Rightarrow> real list" where
  "ucb_scores probabilities N t =
     map2 (\<lambda>p n. p + sqrt (2 * ln (real t) / (real n + 1))) probabilities N"

text \<open>\<^verbatim>\<open>BayesianUCB.getBetaStdDev\<close> and the scores of \<^verbatim>\<open>BayesianUCB.choose_arm\<close>.\<close>

definition getBetaStdDev :: "real list \<Rightarrow> real list \<Rightarrow> real list" where
  "getBetaStdDev as bs =
     map2 (\<lambda>a b. sqrt (a * b / ((a + b)\<^sup>2 * (a + b + 1)))) as bs"

definition bayes_scores :: "real \<Rightarrow> real list \<Rightarrow> real list \<Rightarrow> real list" where
  "bayes_scores sigma as bs =
     map2 (\<lambda>m s. m + s * sigma) (map2 (\<lambda>a b. a / (a + b)) as bs) (getBetaStdDev as bs)"

text \<open>
  The loop of \<^verbatim>\<open>ThompsonSamping.choose_arm\<close>, \<open>k\<close> iterations of it: each iteration calls
  \<^verbatim>\<open>np.random.beta(self.a, self.b)\<close> on the whole arrays and stores the sum of the
  returned array.
\<close>

fun ts_samples ::
  "'g source \<Rightarrow> nat \<Rightarrow> real list \<Rightarrow> real list \<Rightarrow> 'g \<Rightarrow> error + (real list \<times> 'g)" where
  "ts_samples src 0 as bs g = Inr ([], g)"
| "ts_samples src (Suc k) as bs g =
     (case np_random_beta src as bs g of
        Inl e \<Rightarrow> Inl e
      | Inr (xs, g1) \<Rightarrow>
          (case ts_samples src k as bs g1 of
             Inl e \<Rightarrow> Inl e
           | Inr (ss, g2) \<Rightarrow> Inr (sum_list xs # ss, g2)))"

definition with_gen :: "'g \<Rightarrow> error + 'a \<Rightarrow> error + ('a \<times> 'g)" where
  "with_gen g r = (case r of Inl e \<Rightarrow> Inl e | Inr x \<Rightarrow> Inr (x, g))"

fun choose_arm_policy ::
  "'g source \<Rightarrow> env \<Rightarrow> nat list \<Rightarrow> nat option \<Rightarrow> policy \<Rightarrow> 'g \<Rightarrow> error + (nat \<times> 'g)" where
  "choose_arm_policy src e N it (UniformExploration probabilities) g =
     with_gen g (np_argmin N)"
| "choose_arm_policy src e N it (EpsilonGreedy epsilon probabilities) g =
     (case np_random src g of (u, g1) \<Rightarrow>
        (case epsilon of
           None \<Rightarrow> Inl TypeError
         | Some eps \<Rightarrow>
             if u < eps then np_randint src (num_arms e) g1
             else with_gen g1 (np_argmax probabilities)))"
| "choose_arm_policy src e N it (UCB probabilities) g =
     (case it of
        None \<Rightarrow> Inl AttributeError
      | Some i \<Rightarrow> with_gen g (np_argmax (ucb_scores probabilities N (i + 1))))"
| "choose_arm_policy src e N it (BayesianUCB sigma as bs) g =
     with_gen g (np_argmax (bayes_scores sigma as bs))"
| "choose_arm_policy src e N it (ThompsonSamping as bs) g =
     (case ts_samples src (num_arms e) as bs g of
        Inl err \<Rightarrow> Inl err
      | Inr (samples, g1) \<Rightarrow> with_gen g1 (np_argmax samples))"

definition choose_arm :: "'g source \<Rightarrow> agent \<Rightarrow> 'g \<Rightarrow> error + (nat \<times> 'g)" where
  "choose_arm src ag g =
     choose_arm_policy src (MABproblem ag) (N_a ag) (iteration ag) (belief ag) g"

subsubsection \<open>\<^verbatim>\<open>update_belief\<close>\<close>

text \<open>
  The running mean shared by \<^verbatim>\<open>UniformExploration\<close>, \<^verbatim>\<open>EpsilonGreedy\<close> and \<^verbatim>\<open>UCB\<close>:
  \<^verbatim>\<open>probabilities[arm] += (reward - probabilities[arm]) / N_a[arm]\<close>. numpy answers a
  zero divisor with \<^verbatim>\<open>inf\<close> or \<^verbatim>\<open>nan\<close> and a warning; the reals have neither, so that
  case is the error \<open>DivideByZero\<close> of the model.
\<close>

definition running_mean :: "real list \<Rightarrow> nat list \<Rightarrow> nat \<Rightarrow> int \<Rightarrow> error + real list" where
  "running_mean probabilities N arm_choice reward =
     (if length probabilities \<le> arm_choice \<or> length N \<le> arm_choice then Inl IndexError
      else if N ! arm_choice = 0 then Inl DivideByZero
      else Inr (probabilities[arm_choice :=
                  probabilities ! arm_choice
                  + (real_of_int reward - probabilities ! arm_choice)
                    / real (N ! arm_choice)]))"

text \<open>The conjugate update shared by \<^verbatim>\<open>BayesianUCB\<close> and \<^verbatim>\<open>ThompsonSamping\<close>.\<close>

definition beta_update ::
  "real list \<Rightarrow> real list \<Rightarrow> nat \<Rightarrow> int \<Rightarrow> error + (real list \<times> real list)" where
  "beta_update as bs arm_choice reward =
     (if length as \<le> arm_choice \<or> length bs \<le> arm_choice then Inl IndexError
      else Inr (as[arm_choice := as ! arm_choice + real_of_int reward],
                bs[arm_choice := bs ! arm_choice + real_of_int (1 - reward)]))"

fun update_belief_policy :: "nat list \<Rightarrow> policy \<Rightarrow> nat \<Rightarrow> int \<Rightarrow> error + policy" where
  "update_belief_policy N (UniformExploration probabilities) arm_choice reward =
     (case running_mean probabilities N arm_choice reward of
        Inl e \<Rightarrow> Inl e | Inr ps \<Rightarrow> Inr (UniformExploration ps))"
| "update_belief_policy N (EpsilonGreedy epsilon probabilities) arm_choice reward =
     (case running_mean probabilities N arm_choice reward of
        Inl e \<Rightarrow> Inl e | Inr ps \<Rightarrow> Inr (EpsilonGreedy epsilon ps))"
| "update_belief_policy N (UCB probabilities) arm_choice reward =
     (case running_mean probabilities N arm_choice reward of
        Inl e \<Rightarrow> Inl e | Inr ps \<Rightarrow> Inr (UCB ps))"
| "update_belief_policy N (BayesianUCB sigma as bs) arm_choice reward =
     (case beta_update as bs arm_choice reward of
        Inl e \<Rightarrow> Inl e | Inr (as', bs') \<Rightarrow> Inr (BayesianUCB sigma as' bs'))"
| "update_belief_policy N (ThompsonSamping as bs) arm_choice reward =
     (case beta_update as bs arm_choice reward of
        Inl e \<Rightarrow> Inl e | Inr (as', bs') \<Rightarrow> Inr (ThompsonSamping as' bs'))"

definition update_belief :: "agent \<Rightarrow> nat \<Rightarrow> int \<Rightarrow> error + agent" where
  "update_belief ag arm_choice reward =
     (case update_belief_policy (N_a ag) (belief ag) arm_choice reward of
        Inl e \<Rightarrow> Inl e
      | Inr p \<Rightarrow> Inr (ag\<lparr>belief := p\<rparr>))"

subsubsection \<open>\<^verbatim>\<open>update_regret\<close> and \<^verbatim>\<open>run\<close>\<close>

definition update_regret :: "agent \<Rightarrow> nat \<Rightarrow> error + agent" where
  "update_regret ag arm_choice =
     (case py_index (distribution (MABproblem ag)) (int arm_choice) of
        Inl e \<Rightarrow> Inl e
      | Inr p \<Rightarrow>
          (let r = regret ag + (best_cumulative_reward (MABproblem ag) - p)
           in Inr (ag\<lparr>regret := r, regret_history := regret_history ag @ [r]\<rparr>)))"

text \<open>\<^verbatim>\<open>self.N_a[arm_choice] += 1\<close>.\<close>

definition count_pull :: "agent \<Rightarrow> nat \<Rightarrow> error + agent" where
  "count_pull ag arm_choice =
     (if length (N_a ag) \<le> arm_choice then Inl IndexError
      else Inr (ag\<lparr>N_a := (N_a ag)[arm_choice := N_a ag ! arm_choice + 1]\<rparr>))"

text \<open>One pass through the body of the loop of \<^verbatim>\<open>run\<close>, the loop variable being \<open>it\<close>.\<close>

definition run_body :: "'g source \<Rightarrow> nat \<Rightarrow> agent \<Rightarrow> 'g \<Rightarrow> error + (agent \<times> 'g)" where
  "run_body src it ag g =
     (let ag0 = ag\<lparr>iteration := Some it\<rparr> in
      case choose_arm src ag0 g of
        Inl e \<Rightarrow> Inl e
      | Inr (arm_choice, g1) \<Rightarrow>
          (case get_reward src (MABproblem ag0) (int arm_choice) g1 of
             Inl e \<Rightarrow> Inl e
           | Inr (reward, g2) \<Rightarrow>
               (case count_pull ag0 arm_choice of
                  Inl e \<Rightarrow> Inl e
                | Inr ag1 \<Rightarrow>
                    (case update_belief ag1 arm_choice reward of
                       Inl e \<Rightarrow> Inl e
                     | Inr ag2 \<Rightarrow>
                         (case update_regret ag2 arm_choice of
                            Inl e \<Rightarrow> Inl e
                          | Inr ag3 \<Rightarrow> Inr (ag3, g2))))))"

fun run_loop :: "'g source \<Rightarrow> nat list \<Rightarrow> agent \<Rightarrow> 'g \<Rightarrow> error + (agent \<times> 'g)" where
  "run_loop src [] ag g = Inr (ag, g)"
| "run_loop src (it # its) ag g =
     (case run_body src it ag g of
        Inl e \<Rightarrow> Inl e
      | Inr (ag', g') \<Rightarrow> run_loop src its ag' g')"

text \<open>\<^verbatim>\<open>run(num_iterations)\<close>: the loop over \<^verbatim>\<open>range(num_iterations)\<close>, empty for a negative argument.\<close>

definition run :: "'g source \<Rightarrow> int \<Rightarrow> agent \<Rightarrow> 'g \<Rightarrow> error + (agent \<times> 'g)" where
  "run src num_iterations ag g = run_loop src [0 ..< nat num_iterations] ag g"

subsection \<open>Well-formed states\<close>

text \<open>
  What \<^verbatim>\<open>FruitSlotMachine.__init__\<close> establishes and nothing changes afterwards: there is
  an arm, \<^verbatim>\<open>distribution\<close> has one entry per arm, and \<^verbatim>\<open>best_cumulative_reward\<close> is its
  maximum.
\<close>

definition wf_env :: "env \<Rightarrow> bool" where
  "wf_env e \<longleftrightarrow>
     0 < num_arms e \<and> length (distribution e) = num_arms e
     \<and> py_max (distribution e) = Inr (best_cumulative_reward e)"

text \<open>The belief arrays have one entry per arm, as every constructor makes them.\<close>

fun belief_fits :: "nat \<Rightarrow> policy \<Rightarrow> bool" where
  "belief_fits k (UniformExploration probabilities) \<longleftrightarrow> length probabilities = k"
| "belief_fits k (EpsilonGreedy epsilon probabilities) \<longleftrightarrow> length probabilities = k"
| "belief_fits k (UCB probabilities) \<longleftrightarrow> length probabilities = k"
| "belief_fits k (BayesianUCB sigma as bs) \<longleftrightarrow> length as = k \<and> length bs = k"
| "belief_fits k (ThompsonSamping as bs) \<longleftrightarrow> length as = k \<and> length bs = k"

definition wf_agent :: "agent \<Rightarrow> bool" where
  "wf_agent ag \<longleftrightarrow>
     wf_env (MABproblem ag) \<and> length (N_a ag) = num_arms (MABproblem ag)
     \<and> belief_fits (num_arms (MABproblem ag)) (belief ag)"

text \<open>
  The policies whose \<^verbatim>\<open>choose_arm\<close> cannot raise: an \<^verbatim>\<open>EpsilonGreedy\<close> needs a number for
  \<^verbatim>\<open>epsilon\<close>, a \<^verbatim>\<open>ThompsonSamping\<close> positive shape parameters.
\<close>

fun usable :: "policy \<Rightarrow> bool" where
  "usable (EpsilonGreedy epsilon probabilities) \<longleftrightarrow> epsilon \<noteq> None"
| "usable (ThompsonSamping as bs) \<longleftrightarrow> list_all (\<lambda>a. 0 < a) as \<and> list_all (\<lambda>b. 0 < b) bs"
| "usable p \<longleftrightarrow> True"

text \<open>The three policies that keep a running mean.\<close>

fun keeps_mean :: "policy \<Rightarrow> bool" where
  "keeps_mean (UniformExploration probabilities) \<longleftrightarrow> True"
| "keeps_mean (EpsilonGreedy epsilon probabilities) \<longleftrightarrow> True"
| "keeps_mean (UCB probabilities) \<longleftrightarrow> True"
| "keeps_mean p \<longleftrightarrow> False"

text \<open>
  The arrays \<^verbatim>\<open>a\<close> and \<^verbatim>\<open>b\<close> of the two Bayesian classes, the array
  \<^verbatim>\<open>probabilities\<close> of the three others, and whether two belief states are of the same
  class with the same fixed parameter.
\<close>

fun beta_counts :: "policy \<Rightarrow> (real list \<times> real list) option" where
  "beta_counts (BayesianUCB sigma as bs) = Some (as, bs)"
| "beta_counts (ThompsonSamping as bs) = Some (as, bs)"
| "beta_counts p = None"

fun probabilities_of :: "policy \<Rightarrow> real list option" where
  "probabilities_of (UniformExploration probabilities) = Some probabilities"
| "probabilities_of (EpsilonGreedy epsilon probabilities) = Some probabilities"
| "probabilities_of (UCB probabilities) = Some probabilities"
| "probabilities_of p = None"

fun same_class :: "policy \<Rightarrow> policy \<Rightarrow> bool" where
  "same_class (UniformExploration ps) (UniformExploration qs) \<longleftrightarrow> True"
| "same_class (EpsilonGreedy epsilon ps) (EpsilonGreedy epsilon' qs) \<longleftrightarrow> epsilon = epsilon'"
| "same_class (UCB ps) (UCB qs) \<longleftrightarrow> True"
| "same_class (BayesianUCB sigma as bs) (BayesianUCB sigma' as' bs') \<longleftrightarrow> sigma = sigma'"
| "same_class (ThompsonSamping as bs) (ThompsonSamping as' bs') \<longleftrightarrow> True"
| "same_class p q \<longleftrightarrow> False"

text \<open>
  The arms chosen by \<^verbatim>\<open>run\<close>, round by round: a ghost of the loop, which does not
  record its choices. It follows \<open>run_loop\<close> and notes the result of each \<open>choose_arm\<close>.
\<close>

fun chosen_arms :: "'g source \<Rightarrow> nat list \<Rightarrow> agent \<Rightarrow> 'g \<Rightarrow> nat list" where
  "chosen_arms src [] ag g = []"
| "chosen_arms src (it # its) ag g =
     (case choose_arm src (ag\<lparr>iteration := Some it\<rparr>) g of
        Inl e \<Rightarrow> []
      | Inr (arm_choice, g1) \<Rightarrow>
          arm_choice #
          (case run_body src it ag g of
             Inl e \<Rightarrow> []
           | Inr (ag', g') \<Rightarrow> chosen_arms src its ag' g'))"

subsection \<open>Thompson sampling as the specification words it\<close>

text \<open>
  For comparison with \<open>choose_arm_policy\<close> on a \<^verbatim>\<open>ThompsonSamping\<close>, the choice in the
  specification's words: for each arm one draw from the Beta distribution of that arm's
  own pair, and the arm with the largest draw, the lowest index winning a tie.
\<close>

definition spec_thompson_choose_arm ::
  "'g source \<Rightarrow> real list \<Rightarrow> real list \<Rightarrow> 'g \<Rightarrow> error + (nat \<times> 'g)" where
  "spec_thompson_choose_arm src as bs g =
     (case np_random_beta src as bs g of
        Inl err \<Rightarrow> Inl err
      | Inr (samples, g1) \<Rightarrow> with_gen g1 (np_argmax samples))"

subsection \<open>A concrete machine and a replayed random source\<close>

text \<open>The notebook's \<^verbatim>\<open>FruitMachine = FruitSlotMachine([0.3, 0.5, 0.7])\<close>.\<close>

definition FruitMachine :: env where
  "FruitMachine =
     \<lparr>bandit_name = ''Fruit Machine'', num_arms = 3,
      distribution = [3 / 10, 5 / 10, 7 / 10], best_cumulative_reward = 7 / 10\<rparr>"

text \<open>
  A source that replays a recorded list of draws, one entry per call, whatever the
  primitive (and \<open>0\<close> once the record is used up).
\<close>

definition replay_next :: "real list \<Rightarrow> real \<times> real list" where
  "replay_next g = (case g of [] \<Rightarrow> (0, []) | x # xs \<Rightarrow> (x, xs))"

definition replay :: "real list source" where
  "replay =
     \<lparr>np_random = replay_next,
      np_randint_raw = (\<lambda>g. case replay_next g of (x, g1) \<Rightarrow> (nat \<lfloor>x\<rfloor>, g1)),
      np_beta = (\<lambda>a b. replay_next)\<rparr>"

section \<open>Properties\<close>

subsection \<open>The primitives\<close>

lemma scan_argmax:
  fixes L :: "real list"
  assumes "drop i L = xs" "bi < i" "i \<le> length L" "L ! bi = bv"
    "\<forall>j<i. L ! j \<le> bv" "\<forall>j<bi. L ! j < bv"
  shows "scan_best (\<lambda>y m. m < y) xs i bi bv < length L
    \<and> (\<forall>j<length L. L ! j \<le> L ! scan_best (\<lambda>y m. m < y) xs i bi bv)
    \<and> (\<forall>j<scan_best (\<lambda>y m. m < y) xs i bi bv. L ! j < L ! scan_best (\<lambda>y m. m < y) xs i bi bv)"
  using assms
proof (induction xs arbitrary: i bi bv)
  case Nil
  then have "length L \<le> i" by simp
  with Nil show ?case by auto
next
  case (Cons x xs)
  from Cons.prems(1) have il: "i < length L"
    by (metis drop_all list.distinct(1) not_le)
  with Cons.prems(1) have xi: "L ! i = x" and dr: "drop (Suc i) L = xs"
    by (metis Cons_nth_drop_Suc list.inject)+
  show ?case
  proof (cases "bv < x")
    case True
    have a: "\<forall>j<Suc i. L ! j \<le> x"
      using Cons.prems(5) True xi by (auto simp: less_Suc_eq)
    have b: "\<forall>j<i. L ! j < x"
      using Cons.prems(5) True by force
    from Cons.IH[OF dr _ _ xi a b] il True show ?thesis by simp
  next
    case False
    have a: "\<forall>j<Suc i. L ! j \<le> bv"
      using Cons.prems(5) False xi by (auto simp: less_Suc_eq)
    from Cons.IH[OF dr _ _ Cons.prems(4) a Cons.prems(6)] il False Cons.prems(2)
    show ?thesis by simp
  qed
qed

lemma np_argmax_first:
  assumes "xs \<noteq> []"
  shows "\<exists>r. np_argmax xs = Inr r \<and> r < length xs
     \<and> (\<forall>j<length xs. xs ! j \<le> xs ! r) \<and> (\<forall>j<r. xs ! j < xs ! r)"
proof -
  from assms obtain x ys where xs: "xs = x # ys" by (cases xs) auto
  have "scan_best (\<lambda>y m. m < y) ys 1 0 x < length xs
    \<and> (\<forall>j<length xs. xs ! j \<le> xs ! scan_best (\<lambda>y m. m < y) ys 1 0 x)
    \<and> (\<forall>j<scan_best (\<lambda>y m. m < y) ys 1 0 x. xs ! j < xs ! scan_best (\<lambda>y m. m < y) ys 1 0 x)"
    by (rule scan_argmax) (simp_all add: xs)
  then show ?thesis by (simp add: xs)
qed

lemma scan_argmin:
  fixes L :: "nat list"
  assumes "drop i L = xs" "bi < i" "i \<le> length L" "L ! bi = bv"
    "\<forall>j<i. bv \<le> L ! j" "\<forall>j<bi. bv < L ! j"
  shows "scan_best (\<lambda>y m. y < m) xs i bi bv < length L
    \<and> (\<forall>j<length L. L ! scan_best (\<lambda>y m. y < m) xs i bi bv \<le> L ! j)
    \<and> (\<forall>j<scan_best (\<lambda>y m. y < m) xs i bi bv. L ! scan_best (\<lambda>y m. y < m) xs i bi bv < L ! j)"
  using assms
proof (induction xs arbitrary: i bi bv)
  case Nil
  then have "length L \<le> i" by simp
  with Nil show ?case by auto
next
  case (Cons x xs)
  from Cons.prems(1) have il: "i < length L"
    by (metis drop_all list.distinct(1) not_le)
  with Cons.prems(1) have xi: "L ! i = x" and dr: "drop (Suc i) L = xs"
    by (metis Cons_nth_drop_Suc list.inject)+
  show ?case
  proof (cases "x < bv")
    case True
    have a: "\<forall>j<Suc i. x \<le> L ! j"
      using Cons.prems(5) True xi by (auto simp: less_Suc_eq)
    have b: "\<forall>j<i. x < L ! j"
      using Cons.prems(5) True by force
    from Cons.IH[OF dr _ _ xi a b] il True show ?thesis by simp
  next
    case False
    have a: "\<forall>j<Suc i. bv \<le> L ! j"
      using Cons.prems(5) False xi by (auto simp: less_Suc_eq)
    from Cons.IH[OF dr _ _ Cons.prems(4) a Cons.prems(6)] il False Cons.prems(2)
    show ?thesis by simp
  qed
qed

lemma np_argmin_first:
  assumes "xs \<noteq> []"
  shows "\<exists>r. np_argmin xs = Inr r \<and> r < length xs
     \<and> (\<forall>j<length xs. xs ! r \<le> xs ! j) \<and> (\<forall>j<r. xs ! r < xs ! j)"
proof -
  from assms obtain x ys where xs: "xs = x # ys" by (cases xs) auto
  have "scan_best (\<lambda>y m. y < m) ys 1 0 x < length xs
    \<and> (\<forall>j<length xs. xs ! scan_best (\<lambda>y m. y < m) ys 1 0 x \<le> xs ! j)
    \<and> (\<forall>j<scan_best (\<lambda>y m. y < m) ys 1 0 x. xs ! scan_best (\<lambda>y m. y < m) ys 1 0 x < xs ! j)"
    by (rule scan_argmin) (simp_all add: xs)
  then show ?thesis by (simp add: xs)
qed

lemma fold_max_ge: "m \<le> fold (\<lambda>y m. if m < y then y else m) xs (m::real)"
proof (induction xs arbitrary: m)
  case Nil show ?case by simp
next
  case (Cons x xs)
  show ?case using Cons.IH[of x] Cons.IH[of m] by auto
qed

lemma fold_max_upper:
  "\<forall>x\<in>set xs. x \<le> fold (\<lambda>y m. if m < y then y else m) xs (m::real)"
proof (induction xs arbitrary: m)
  case Nil show ?case by simp
next
  case (Cons x xs)
  show ?case using Cons.IH[of x] Cons.IH[of m] fold_max_ge[of x xs] fold_max_ge[of m xs] by auto
qed

lemma py_max_upper: "py_max xs = Inr m \<Longrightarrow> x \<in> set xs \<Longrightarrow> x \<le> m"
  using fold_max_upper fold_max_ge by (cases xs) auto

lemma wf_FruitMachine: "wf_env FruitMachine"
  by (simp add: wf_env_def FruitMachine_def)

lemma FruitMachine_built:
  "FruitSlotMachine_init src (Some [3 / 10, 5 / 10, 7 / 10]) g = Inr (FruitMachine, g)"
  by (simp add: FruitSlotMachine_init_def FruitMachine_def)

lemma length_draw_randoms: "draw_randoms src k g = (xs, g') \<Longrightarrow> length xs = k"
  by (induction k arbitrary: g xs g') (auto split: prod.splits)

lemma FruitSlotMachine_init_wf:
  "FruitSlotMachine_init src d g = Inr (e, g') \<Longrightarrow> wf_env e"
  by (auto simp: FruitSlotMachine_init_def wf_env_def split: option.splits if_splits sum.splits prod.splits dest: length_draw_randoms)

subsection \<open>Choosing an arm\<close>

lemma with_gen_Inr [simp]: "with_gen g r = Inr (x, g') \<longleftrightarrow> r = Inr x \<and> g' = g"
  by (auto simp: with_gen_def split: sum.splits)

lemma length_beta_draws: "beta_draws src ps g = (xs, g') \<Longrightarrow> length xs = length ps"
  by (induction ps arbitrary: g xs g') (auto split: prod.splits)

lemma length_ts_samples: "ts_samples src k as bs g = Inr (ss, g') \<Longrightarrow> length ss = k"
  by (induction k arbitrary: g ss g') (auto split: sum.splits prod.splits)

lemma ts_samples_total:
  "list_all (\<lambda>a. 0 < a) as \<Longrightarrow> list_all (\<lambda>b. 0 < b) bs
   \<Longrightarrow> \<exists>ss g'. ts_samples src k as bs g = Inr (ss, g')"
proof (induction k arbitrary: g)
  case 0
  show ?case by simp
next
  case (Suc k)
  have na: "\<not> list_ex (\<lambda>a. a \<le> 0) as" and nb: "\<not> list_ex (\<lambda>b. b \<le> 0) bs"
    using Suc.prems by (auto simp: list_ex_iff list_all_iff)
  obtain xs g1 where d: "beta_draws src (zip as bs) g = (xs, g1)"
    by (cases "beta_draws src (zip as bs) g") auto
  from Suc.IH[OF Suc.prems, of g1] obtain ss g2 where "ts_samples src k as bs g1 = Inr (ss, g2)"
    by auto
  with na nb d show ?case by (simp add: np_random_beta_def)
qed

lemma length_ucb_scores: "length (ucb_scores ps N t) = min (length ps) (length N)"
  by (simp add: ucb_scores_def)

lemma length_bayes_scores: "length (bayes_scores sigma as bs) = min (length as) (length bs)"
  by (simp add: bayes_scores_def getBetaStdDev_def)

lemma np_argmax_less: "np_argmax xs = Inr r \<Longrightarrow> r < length xs"
  using np_argmax_first[of xs] by (cases xs) auto

lemma np_argmin_less: "np_argmin xs = Inr r \<Longrightarrow> r < length xs"
  using np_argmin_first[of xs] by (cases xs) auto

lemma np_argmax_total: "xs \<noteq> [] \<Longrightarrow> \<exists>r. np_argmax xs = Inr r"
  by (cases xs) auto

lemma np_argmin_total: "xs \<noteq> [] \<Longrightarrow> \<exists>r. np_argmin xs = Inr r"
  by (cases xs) auto

lemma choose_arm_policy_less:
  assumes "0 < num_arms e" "length N = num_arms e" "belief_fits (num_arms e) p"
    "choose_arm_policy src e N it p g = Inr (arm, g')"
  shows "arm < num_arms e"
proof (cases p)
  case (UniformExploration ps)
  with assms show ?thesis by (auto dest: np_argmin_less)
next
  case (EpsilonGreedy eps ps)
  with assms show ?thesis
    by (auto simp: np_randint_def split: prod.splits option.splits if_splits
        dest: np_argmax_less)
next
  case (UCB ps)
  with assms show ?thesis
    by (auto split: option.splits dest!: np_argmax_less simp: length_ucb_scores)
next
  case (BayesianUCB sigma as bs)
  with assms show ?thesis
    by (auto dest!: np_argmax_less simp: length_bayes_scores)
next
  case (ThompsonSamping as bs)
  with assms show ?thesis
    by (auto split: sum.splits dest!: np_argmax_less length_ts_samples)
qed

lemma choose_arm_policy_total:
  assumes "0 < num_arms e" "length N = num_arms e" "belief_fits (num_arms e) p"
    "usable p"
  shows "\<exists>arm g'. choose_arm_policy src e N (Some it) p g = Inr (arm, g')"
proof (cases p)
  case (UniformExploration ps)
  from assms have "N \<noteq> []" by auto
  from np_argmin_total[OF this] UniformExploration show ?thesis
    by (auto simp: with_gen_def)
next
  case (EpsilonGreedy eps ps)
  with assms have "ps \<noteq> []" by auto
  from np_argmax_total[OF this] EpsilonGreedy assms show ?thesis
    by (auto simp: np_randint_def with_gen_def split: prod.splits option.splits)
next
  case (UCB ps)
  with assms have "ucb_scores ps N (it + 1) \<noteq> []"
    using length_ucb_scores[of ps N "it + 1"] by auto
  from np_argmax_total[OF this] UCB show ?thesis
    by (auto simp: with_gen_def)
next
  case (BayesianUCB sigma as bs)
  with assms have "bayes_scores sigma as bs \<noteq> []"
    using length_bayes_scores[of sigma as bs] by auto
  from np_argmax_total[OF this] BayesianUCB show ?thesis
    by (auto simp: with_gen_def)
next
  case (ThompsonSamping as bs)
  with assms obtain ss g1 where s: "ts_samples src (num_arms e) as bs g = Inr (ss, g1)"
    using ts_samples_total[of as bs src "num_arms e" g] by auto
  then have "ss \<noteq> []" using assms(1) length_ts_samples[OF s] by auto
  from np_argmax_total[OF this] s ThompsonSamping show ?thesis
    by (auto simp: with_gen_def)
qed

subsection \<open>One round, and the loop\<close>

lemma get_reward_in_range:
  assumes "arm < length (distribution e)"
  shows "\<exists>reward g'. get_reward src e (int arm) g = Inr (reward, g') \<and> (reward = 0 \<or> reward = 1)"
  using assms by (auto simp: get_reward_def py_index_def split: prod.splits)

lemma running_mean_ok:
  assumes "arm < length ps" "arm < length N" "0 < N ! arm"
  shows "\<exists>ps'. running_mean ps N arm reward = Inr ps' \<and> length ps' = length ps"
  using assms by (simp add: running_mean_def)

lemma beta_update_ok:
  assumes "arm < length as" "arm < length bs"
  shows "beta_update as bs arm reward
    = Inr (as[arm := as ! arm + real_of_int reward], bs[arm := bs ! arm + real_of_int (1 - reward)])"
  using assms by (simp add: beta_update_def)

lemma update_belief_policy_ok:
  assumes "belief_fits k p" "arm < k" "length N = k" "0 < N ! arm"
  shows "\<exists>p'. update_belief_policy N p arm reward = Inr p' \<and> belief_fits k p'"
proof (cases p)
  case (UniformExploration ps)
  with assms running_mean_ok[of arm ps N reward] show ?thesis by auto
next
  case (EpsilonGreedy eps ps)
  with assms running_mean_ok[of arm ps N reward] show ?thesis by auto
next
  case (UCB ps)
  with assms running_mean_ok[of arm ps N reward] show ?thesis by auto
next
  case (BayesianUCB sigma as bs)
  with assms show ?thesis by (simp add: beta_update_ok)
next
  case (ThompsonSamping as bs)
  with assms show ?thesis by (simp add: beta_update_ok)
qed

lemma update_belief_policy_fits:
  assumes "update_belief_policy N p arm reward = Inr p'" "belief_fits k p"
  shows "belief_fits k p'"
  using assms
  by (cases p) (auto simp: running_mean_def beta_update_def split: sum.splits if_splits)

lemma list_all_pos_update:
  fixes xs :: "real list"
  assumes "list_all (\<lambda>a. 0 < a) xs" "i < length xs" "0 \<le> v"
  shows "list_all (\<lambda>a. 0 < a) (xs[i := xs ! i + v])"
  using assms by (auto simp: list_all_length nth_list_update intro: add_pos_nonneg)

lemma update_belief_policy_usable:
  assumes "update_belief_policy N p arm reward = Inr p'" "usable p" "reward = 0 \<or> reward = 1"
  shows "usable p'"
proof (cases p)
  case (ThompsonSamping as bs)
  with assms show ?thesis
    by (auto simp: beta_update_def split: if_splits intro!: list_all_pos_update)
qed (use assms in \<open>auto split: sum.splits\<close>)

text \<open>What one pass of the loop does to a well-formed agent.\<close>

lemma run_body_Inr:
  assumes "wf_agent ag" "run_body src it ag g = Inr (ag', g')"
  shows "\<exists>arm g1 reward p.
      choose_arm src (ag\<lparr>iteration := Some it\<rparr>) g = Inr (arm, g1)
    \<and> arm < num_arms (MABproblem ag)
    \<and> get_reward src (MABproblem ag) (int arm) g1 = Inr (reward, g')
    \<and> (reward = 0 \<or> reward = 1)
    \<and> update_belief_policy ((N_a ag)[arm := N_a ag ! arm + 1]) (belief ag) arm reward = Inr p
    \<and> ag' = ag\<lparr>iteration := Some it,
                N_a := (N_a ag)[arm := N_a ag ! arm + 1],
                belief := p,
                regret := regret ag
                  + (best_cumulative_reward (MABproblem ag) - distribution (MABproblem ag) ! arm),
                regret_history := regret_history ag @
                  [regret ag
                   + (best_cumulative_reward (MABproblem ag) - distribution (MABproblem ag) ! arm)]\<rparr>"
proof -
  from assms(2) obtain arm g1 where c: "choose_arm src (ag\<lparr>iteration := Some it\<rparr>) g = Inr (arm, g1)"
    by (auto simp: run_body_def Let_def split: sum.splits)
  from assms(1) c have less: "arm < num_arms (MABproblem ag)"
    by (auto simp: choose_arm_def wf_agent_def wf_env_def intro: choose_arm_policy_less)
  with assms(1) have ld: "arm < length (distribution (MABproblem ag))" and ln: "arm < length (N_a ag)"
    by (auto simp: wf_agent_def wf_env_def)
  from get_reward_in_range[OF ld, of src g1] obtain reward g2
    where r: "get_reward src (MABproblem ag) (int arm) g1 = Inr (reward, g2)"
      and r01: "reward = 0 \<or> reward = 1" by auto
  from assms(2) c r ln ld show ?thesis
    apply (simp add: run_body_def count_pull_def update_belief_def update_regret_def py_index_def
        Let_def split: sum.splits)
    using less r01 by auto
qed

lemma run_body_total:
  assumes "wf_agent ag" "usable (belief ag)"
  shows "\<exists>ag' g'. run_body src it ag g = Inr (ag', g')"
proof -
  from assms obtain arm g1 where c: "choose_arm src (ag\<lparr>iteration := Some it\<rparr>) g = Inr (arm, g1)"
    using choose_arm_policy_total[of "MABproblem ag" "N_a ag" "belief ag" src it g]
    by (auto simp: choose_arm_def wf_agent_def wf_env_def)
  from assms(1) c have less: "arm < num_arms (MABproblem ag)"
    by (auto simp: choose_arm_def wf_agent_def wf_env_def intro: choose_arm_policy_less)
  with assms(1) have ld: "arm < length (distribution (MABproblem ag))" and ln: "arm < length (N_a ag)"
    by (auto simp: wf_agent_def wf_env_def)
  from get_reward_in_range[OF ld, of src g1] obtain reward g2
    where r: "get_reward src (MABproblem ag) (int arm) g1 = Inr (reward, g2)" by auto
  from assms(1) less ln
  obtain p' where u: "update_belief_policy ((N_a ag)[arm := N_a ag ! arm + 1]) (belief ag) arm reward = Inr p'"
    using update_belief_policy_ok[of "num_arms (MABproblem ag)" "belief ag" arm
        "(N_a ag)[arm := N_a ag ! arm + 1]" reward]
    by (auto simp: wf_agent_def)
  from c r u ln ld show ?thesis
    by (simp add: run_body_def count_pull_def update_belief_def update_regret_def py_index_def Let_def)
qed

lemma run_body_wf:
  assumes "wf_agent ag" "run_body src it ag g = Inr (ag', g')"
  shows "wf_agent ag' \<and> MABproblem ag' = MABproblem ag"
  using run_body_Inr[OF assms] assms(1)
  by (auto simp: wf_agent_def dest: update_belief_policy_fits)

lemma run_body_usable:
  assumes "wf_agent ag" "run_body src it ag g = Inr (ag', g')" "usable (belief ag)"
  shows "usable (belief ag')"
  using run_body_Inr[OF assms(1,2)] assms(3)
  by (auto dest: update_belief_policy_usable)

lemma run_loop_wf:
  assumes "wf_agent ag" "run_loop src its ag g = Inr (ag', g')"
  shows "wf_agent ag' \<and> MABproblem ag' = MABproblem ag"
  using assms
proof (induction its arbitrary: ag g)
  case Nil
  then show ?case by simp
next
  case (Cons it its)
  from Cons.prems(2) obtain ag1 g1 where b: "run_body src it ag g = Inr (ag1, g1)"
    and l: "run_loop src its ag1 g1 = Inr (ag', g')"
    by (auto split: sum.splits)
  from run_body_wf[OF Cons.prems(1) b] Cons.IH[OF _ l] show ?case by simp
qed

lemma run_loop_total:
  assumes "wf_agent ag" "usable (belief ag)"
  shows "\<exists>ag' g'. run_loop src its ag g = Inr (ag', g')"
  using assms
proof (induction its arbitrary: ag g)
  case Nil
  show ?case by simp
next
  case (Cons it its)
  from run_body_total[OF Cons.prems, of src it g] obtain ag1 g1
    where b: "run_body src it ag g = Inr (ag1, g1)" by auto
  from run_body_wf[OF Cons.prems(1) b] run_body_usable[OF Cons.prems(1) b Cons.prems(2)]
  have "\<exists>ag' g'. run_loop src its ag1 g1 = Inr (ag', g')" by (intro Cons.IH) auto
  with b show ?case by simp
qed

lemma run_loop_append:
  "run_loop src (its @ its') ag g =
     (case run_loop src its ag g of Inl e \<Rightarrow> Inl e | Inr (ag1, g1) \<Rightarrow> run_loop src its' ag1 g1)"
  by (induction its arbitrary: ag g) (auto split: sum.splits)

lemma wf_agent_init:
  "wf_env e \<Longrightarrow> belief_fits (num_arms e) p \<Longrightarrow> wf_agent (AbstractMABAlgorithm_init e p)"
  by (simp add: wf_agent_def AbstractMABAlgorithm_init_def)

subsection \<open>Some runs on the notebook's machine\<close>

lemma uniform_init_FruitMachine:
  "AbstractMABAlgorithm_init FruitMachine (UniformExploration [1, 1, 1])
     = UniformExploration_init FruitMachine 1"
  by (simp add: UniformExploration_init_def FruitMachine_def eval_nat_numeral)

lemma run_uniform_one_round:
  "run replay 1 (UniformExploration_init FruitMachine 1) [1 / 5, 9 / 10]
  = Inr (\<lparr>MABproblem = FruitMachine, N_a = [1, 0, 0], regret = 2 / 5,
           regret_history = [0, 2 / 5], iteration = Some 0,
           belief = UniformExploration [1, 1, 1]\<rparr>, [9 / 10])"
  by (simp add: run_def upt_rec run_body_def choose_arm_def UniformExploration_init_def AbstractMABAlgorithm_init_def
    with_gen_def get_reward_def replay_def replay_next_def py_index_def FruitMachine_def count_pull_def
    update_belief_def running_mean_def update_regret_def Let_def eval_nat_numeral)

lemma run_uniform_two_rounds: "run replay 2 (UniformExploration_init FruitMachine 1) [1/5, 9/10]
  = Inr (\<lparr>MABproblem = FruitMachine, N_a = [1, 1, 0], regret = 3 / 5,
           regret_history = [0, 2 / 5, 3 / 5], iteration = Some 1,
           belief = UniformExploration [1, 0, 1]\<rparr>, [])"
  by (simp add: run_def upt_rec run_body_def choose_arm_def UniformExploration_init_def AbstractMABAlgorithm_init_def
    with_gen_def get_reward_def replay_def replay_next_def py_index_def FruitMachine_def count_pull_def
    update_belief_def running_mean_def update_regret_def Let_def eval_nat_numeral)

lemma run_ucb_one_round:
  "run replay 1 (UCB_init FruitMachine 1) [1 / 5]
  = Inr (\<lparr>MABproblem = FruitMachine, N_a = [1, 0, 0], regret = 2 / 5,
           regret_history = [0, 2 / 5], iteration = Some 0,
           belief = UCB [1, 1, 1]\<rparr>, [])"
  by (simp add: run_def upt_rec run_body_def choose_arm_def UCB_init_def AbstractMABAlgorithm_init_def
    with_gen_def get_reward_def replay_def replay_next_def py_index_def FruitMachine_def count_pull_def
    update_belief_def running_mean_def update_regret_def ucb_scores_def Let_def eval_nat_numeral)

subsection \<open>The environment's reward\<close>

text \<open>
  Against claim C2 as stated: \<open>-1\<close> is outside \<open>[0, numArms)\<close>, yet \<^verbatim>\<open>get_reward(-1)\<close> on
  the notebook's machine does not fail. The list is indexed from its end, and the draw
  \<open>0.6\<close> below the last arm's \<open>0.7\<close> pays \<open>1\<close>.
\<close>

theorem get_reward_negative_index_counterexample:
  "get_reward replay FruitMachine (- 1) [3 / 5] = Inr (1, [])"
  by (simp add: get_reward_def replay_def replay_next_def FruitMachine_def py_index_def)

text \<open>
  Claim C2, amended. On a machine with \<open>numArms\<close> arms, \<^verbatim>\<open>get_reward(armIndex)\<close> fails
  (with \<^verbatim>\<open>IndexError\<close>) for every \<open>armIndex \<ge> numArms\<close> and every \<open>armIndex < -numArms\<close>.
  For \<open>0 \<le> armIndex < numArms\<close> it returns \<open>1\<close> when the uniform draw is below
  \<^verbatim>\<open>distribution[armIndex]\<close> and \<open>0\<close> otherwise, and hands back nothing but that reward
  and the advanced generator: the environment is only read. For
  \<open>-numArms \<le> armIndex < 0\<close> it does not fail and is the reward of arm
  \<open>armIndex + numArms\<close>.
\<close>

theorem get_reward_by_index:
  assumes "wf_env e"
  shows "(int (num_arms e) \<le> arm_choice \<or> arm_choice < - int (num_arms e)
            \<longrightarrow> get_reward src e arm_choice g = Inl IndexError)
    \<and> (0 \<le> arm_choice \<and> arm_choice < int (num_arms e)
            \<longrightarrow> get_reward src e arm_choice g
                = Inr (if fst (np_random src g) < distribution e ! nat arm_choice then 1 else 0,
                       snd (np_random src g)))
    \<and> (- int (num_arms e) \<le> arm_choice \<and> arm_choice < 0
            \<longrightarrow> get_reward src e arm_choice g
                = get_reward src e (arm_choice + int (num_arms e)) g)"
  using assms
  by (auto simp: get_reward_def py_index_def wf_env_def add.commute split: prod.splits)

theorem get_reward_by_index_witness:
  "get_reward replay FruitMachine 3 [3 / 5] = Inl IndexError
   \<and> get_reward replay FruitMachine (- 4) [3 / 5] = Inl IndexError
   \<and> get_reward replay FruitMachine 2 [3 / 5] = Inr (1, [])
   \<and> get_reward replay FruitMachine (- 2) [3 / 5] = get_reward replay FruitMachine 1 [3 / 5]"
  using get_reward_by_index [OF wf_FruitMachine, of 3 replay "[3 / 5]"]
    get_reward_by_index [OF wf_FruitMachine, of "- 4" replay "[3 / 5]"]
    get_reward_by_index [OF wf_FruitMachine, of 2 replay "[3 / 5]"]
    get_reward_by_index [OF wf_FruitMachine, of "- 2" replay "[3 / 5]"]
  by (simp add: FruitMachine_def replay_def replay_next_def)

subsection \<open>The constructor of \<^verbatim>\<open>EpsilonGreedy\<close>\<close>

text \<open>
  Claim C8. For a number \<open>eps\<close>, \<^verbatim>\<open>EpsilonGreedy(machine, eps)\<close> fails when \<open>eps < 0\<close> or
  \<open>eps > 1\<close> and succeeds when \<open>0 \<le> eps \<le> 1\<close>. The failure is the constructor's own
  result, the \<^verbatim>\<open>AssertionError\<close> of its \<^verbatim>\<open>assert\<close>: nothing is left to a later call.
\<close>

theorem EpsilonGreedy_init_checks_epsilon:
  "(eps < 0 \<or> 1 < eps \<longrightarrow> EpsilonGreedy_init e (Some eps) p0 = Inl AssertionError)
   \<and> (0 \<le> eps \<and> eps \<le> 1 \<longrightarrow>
        EpsilonGreedy_init e (Some eps) p0
        = Inr (AbstractMABAlgorithm_init e
                 (EpsilonGreedy (Some eps) (replicate (num_arms e) p0))))"
  by (auto simp: EpsilonGreedy_init_def)

theorem EpsilonGreedy_init_checks_epsilon_witness:
  "EpsilonGreedy_init FruitMachine (Some 2) 1 = Inl AssertionError
   \<and> EpsilonGreedy_init FruitMachine (Some (- 1 / 10)) 1 = Inl AssertionError
   \<and> EpsilonGreedy_init FruitMachine (Some (1 / 2)) 1
     = Inr (AbstractMABAlgorithm_init FruitMachine
              (EpsilonGreedy (Some (1 / 2)) (replicate (num_arms FruitMachine) 1)))"
  using EpsilonGreedy_init_checks_epsilon [of 2 FruitMachine 1]
    EpsilonGreedy_init_checks_epsilon [of "- 1 / 10" FruitMachine 1]
    EpsilonGreedy_init_checks_epsilon [of "1 / 2" FruitMachine 1]
  by simp

text \<open>
  Claim C10. \<^verbatim>\<open>EpsilonGreedy(machine, None)\<close> succeeds: the assertion admits \<^verbatim>\<open>None\<close>.
  The agent it builds cannot choose an arm, for \<^verbatim>\<open>choose_arm\<close> compares a float with
  \<^verbatim>\<open>None\<close> and raises \<^verbatim>\<open>TypeError\<close>.
\<close>

theorem EpsilonGreedy_init_admits_None:
  "EpsilonGreedy_init e None p0
     = Inr (AbstractMABAlgorithm_init e (EpsilonGreedy None (replicate (num_arms e) p0)))
   \<and> choose_arm src
        (AbstractMABAlgorithm_init e (EpsilonGreedy None (replicate (num_arms e) p0))) g
     = Inl TypeError"
  by (simp add: EpsilonGreedy_init_def choose_arm_def AbstractMABAlgorithm_init_def
      split: prod.splits)

theorem EpsilonGreedy_init_admits_None_witness:
  "EpsilonGreedy_init FruitMachine None 1
     = Inr (AbstractMABAlgorithm_init FruitMachine
              (EpsilonGreedy None (replicate (num_arms FruitMachine) 1)))
   \<and> choose_arm replay
        (AbstractMABAlgorithm_init FruitMachine
           (EpsilonGreedy None (replicate (num_arms FruitMachine) 1))) [1 / 2]
     = Inl TypeError"
  using EpsilonGreedy_init_admits_None [of FruitMachine 1 replay "[1 / 2]"]
  by simp

subsection \<open>Pull counts\<close>

lemma run_Suc:
  "run src (int (Suc k)) ag g =
     (case run src (int k) ag g of Inl e \<Rightarrow> Inl e | Inr (ag1, g1) \<Rightarrow> run_body src k ag1 g1)"
proof -
  have "run src (int (Suc k)) ag g = run_loop src ([0..<k] @ [k]) ag g"
    unfolding run_def nat_int by simp
  then show ?thesis
    unfolding run_def nat_int by (auto simp: run_loop_append split: sum.splits)
qed

lemma run_wf:
  "wf_agent ag \<Longrightarrow> run src n ag g = Inr (ag', g') \<Longrightarrow> wf_agent ag' \<and> MABproblem ag' = MABproblem ag"
  unfolding run_def by (rule run_loop_wf)

lemma run_total:
  "wf_agent ag \<Longrightarrow> usable (belief ag) \<Longrightarrow> \<exists>ag' g'. run src n ag g = Inr (ag', g')"
  unfolding run_def by (rule run_loop_total)

lemma sum_list_bump:
  fixes xs :: "nat list"
  shows "i < length xs \<Longrightarrow> sum_list (xs[i := Suc (xs ! i)]) = Suc (sum_list xs)"
  by (induction xs arbitrary: i) (auto simp: nth_Cons split: nat.splits)

lemma run_loop_sum:
  assumes "wf_agent ag" "run_loop src its ag g = Inr (ag', g')"
  shows "sum_list (N_a ag') = sum_list (N_a ag) + length its"
  using assms
proof (induction its arbitrary: ag g)
  case Nil
  then show ?case by simp
next
  case (Cons it its)
  from Cons.prems(2) obtain ag1 g1 where b: "run_body src it ag g = Inr (ag1, g1)"
    and l: "run_loop src its ag1 g1 = Inr (ag', g')"
    by (auto split: sum.splits)
  from run_body_Inr[OF Cons.prems(1) b] obtain arm
    where "arm < num_arms (MABproblem ag)" "N_a ag1 = (N_a ag)[arm := N_a ag ! arm + 1]"
    by auto
  with Cons.prems(1) have "sum_list (N_a ag1) = sum_list (N_a ag) + 1"
    by (simp add: sum_list_bump wf_agent_def)
  with run_body_wf[OF Cons.prems(1) b] Cons.IH[OF _ l] show ?case by simp
qed

text \<open>
  Claim C5. Start any policy from its constructor's state and let \<^verbatim>\<open>run(n)\<close> complete,
  \<open>n \<ge> 0\<close>: the pull counts sum to \<open>n\<close>. A run of \<open>k + 1\<close> rounds differs from the run
  of \<open>k\<close> rounds in the pull counts by one entry only, that of the arm \<^verbatim>\<open>choose_arm\<close>
  returned in round \<open>k + 1\<close>, which is larger by exactly \<open>1\<close>. The run does complete
  for every usable policy.
\<close>

theorem pull_counts_sum_to_rounds:
  assumes "wf_env e" "belief_fits (num_arms e) p"
  shows "(usable p \<longrightarrow> (\<exists>ag g'. run src (int n) (AbstractMABAlgorithm_init e p) g = Inr (ag, g')))
    \<and> (\<forall>ag g'. run src (int n) (AbstractMABAlgorithm_init e p) g = Inr (ag, g')
          \<longrightarrow> sum_list (N_a ag) = n)
    \<and> (\<forall>k ag g1 ag' g2.
          run src (int k) (AbstractMABAlgorithm_init e p) g = Inr (ag, g1)
          \<and> run src (int (Suc k)) (AbstractMABAlgorithm_init e p) g = Inr (ag', g2)
          \<longrightarrow> (\<exists>arm g3. choose_arm src (ag\<lparr>iteration := Some k\<rparr>) g1 = Inr (arm, g3)
                \<and> arm < num_arms e \<and> length (N_a ag) = num_arms e
                \<and> length (N_a ag') = num_arms e
                \<and> (\<forall>i<num_arms e.
                      N_a ag' ! i = (if i = arm then N_a ag ! i + 1 else N_a ag ! i))))"
proof (intro conjI allI impI)
  let ?A = "AbstractMABAlgorithm_init e p"
  have wf: "wf_agent ?A" using assms by (rule wf_agent_init)
  {
    assume "usable p"
    then have "usable (belief ?A)" by (simp add: AbstractMABAlgorithm_init_def)
    from run_total[OF wf this] show "\<exists>ag g'. run src (int n) ?A g = Inr (ag, g')" .
  }
  {
    fix ag g' assume "run src (int n) ?A g = Inr (ag, g')"
    from run_loop_sum[OF wf this[unfolded run_def]]
    show "sum_list (N_a ag) = n" by (simp add: AbstractMABAlgorithm_init_def)
  }
  {
    fix k ag g1 ag' g2
    assume h: "run src (int k) ?A g = Inr (ag, g1) \<and> run src (int (Suc k)) ?A g = Inr (ag', g2)"
    then have b: "run_body src k ag g1 = Inr (ag', g2)"
      unfolding run_Suc by (elim conjE) simp
    from h have "run src (int k) ?A g = Inr (ag, g1)" by simp
    from run_wf[OF wf this] have w: "wf_agent ag" and m: "MABproblem ag = e"
      by (simp_all add: AbstractMABAlgorithm_init_def)
    from run_body_Inr[OF w b] w m
    show "\<exists>arm g3. choose_arm src (ag\<lparr>iteration := Some k\<rparr>) g1 = Inr (arm, g3)
                \<and> arm < num_arms e \<and> length (N_a ag) = num_arms e
                \<and> length (N_a ag') = num_arms e
                \<and> (\<forall>i<num_arms e.
                      N_a ag' ! i = (if i = arm then N_a ag ! i + 1 else N_a ag ! i))"
      by (auto simp: wf_agent_def)
  }
qed

theorem pull_counts_sum_to_rounds_witness:
  "wf_env FruitMachine \<and> belief_fits (num_arms FruitMachine) (UniformExploration [1, 1, 1])
   \<and> usable (UniformExploration [1, 1, 1])
   \<and> run replay 2 (UniformExploration_init FruitMachine 1) [1 / 5, 9 / 10]
       = Inr (\<lparr>MABproblem = FruitMachine, N_a = [1, 1, 0], regret = 3 / 5,
                regret_history = [0, 2 / 5, 3 / 5], iteration = Some 1,
                belief = UniformExploration [1, 0, 1]\<rparr>, [])
   \<and> sum_list [1, 1, 0 :: nat] = 2
   \<and> (\<exists>arm g3. choose_arm replay
          \<lparr>MABproblem = FruitMachine, N_a = [1, 0, 0], regret = 2 / 5,
            regret_history = [0, 2 / 5], iteration = Some 1,
            belief = UniformExploration [1, 1, 1]\<rparr> [9 / 10] = Inr (arm, g3)
        \<and> arm < 3
        \<and> (\<forall>i<3. [1, 1, 0 :: nat] ! i = (if i = arm then [1, 0, 0] ! i + 1 else [1, 0, 0] ! i)))"
proof -
  have b: "belief_fits (num_arms FruitMachine) (UniformExploration [1, 1, 1])"
    by (simp add: FruitMachine_def)
  note t = pull_counts_sum_to_rounds [OF wf_FruitMachine b, of replay 2 "[1 / 5, 9 / 10]",
      unfolded uniform_init_FruitMachine]
  from t have "sum_list [1, 1, 0 :: nat] = 2" by simp
  moreover from t have "\<forall>k ag g1 ag' g2.
          run replay (int k) (UniformExploration_init FruitMachine 1) [1 / 5, 9 / 10] = Inr (ag, g1)
          \<and> run replay (int (Suc k)) (UniformExploration_init FruitMachine 1) [1 / 5, 9 / 10] = Inr (ag', g2)
          \<longrightarrow> (\<exists>arm g3. choose_arm replay (ag\<lparr>iteration := Some k\<rparr>) g1 = Inr (arm, g3)
                \<and> arm < num_arms FruitMachine
                \<and> (\<forall>i<num_arms FruitMachine.
                      N_a ag' ! i = (if i = arm then N_a ag ! i + 1 else N_a ag ! i)))"
    by blast
  from this[rule_format, of 1] run_uniform_one_round run_uniform_two_rounds
  have "\<exists>arm g3. choose_arm replay
          \<lparr>MABproblem = FruitMachine, N_a = [1, 0, 0], regret = 2 / 5,
            regret_history = [0, 2 / 5], iteration = Some 1,
            belief = UniformExploration [1, 1, 1]\<rparr> [9 / 10] = Inr (arm, g3)
        \<and> arm < 3
        \<and> (\<forall>i<3. [1, 1, 0 :: nat] ! i = (if i = arm then [1, 0, 0] ! i + 1 else [1, 0, 0] ! i))"
    by (simp add: FruitMachine_def cong del: if_weak_cong)
  ultimately show ?thesis
    using wf_FruitMachine b run_uniform_two_rounds by simp
qed

subsection \<open>Regret\<close>

lemma regret_step_nonneg:
  assumes "wf_env e" "arm < num_arms e"
  shows "0 \<le> best_cumulative_reward e - distribution e ! arm"
proof -
  from assms have "distribution e ! arm \<in> set (distribution e)"
    by (simp add: wf_env_def)
  with assms(1) py_max_upper[of "distribution e" "best_cumulative_reward e"] show ?thesis
    by (simp add: wf_env_def)
qed

lemma sorted_le_last:
  fixes xs :: "real list"
  shows "sorted xs \<Longrightarrow> x \<in> set xs \<Longrightarrow> x \<le> last xs"
  by (induction xs) (auto simp: last_in_set)

lemma run_loop_regret:
  assumes "wf_agent ag" "run_loop src its ag g = Inr (ag', g')"
    "regret_history ag \<noteq> []" "sorted (regret_history ag)"
    "last (regret_history ag) = regret ag"
  shows "length (regret_history ag') = length (regret_history ag) + length its
    \<and> hd (regret_history ag') = hd (regret_history ag)
    \<and> sorted (regret_history ag')
    \<and> last (regret_history ag') = regret ag'
    \<and> length (chosen_arms src its ag g) = length its
    \<and> regret ag' = regret ag
        + sum_list (map (\<lambda>arm. best_cumulative_reward (MABproblem ag)
                                - distribution (MABproblem ag) ! arm)
                      (chosen_arms src its ag g))"
  using assms
proof (induction its arbitrary: ag g)
  case Nil
  then show ?case by simp
next
  case (Cons it its)
  from Cons.prems(2) obtain ag1 g1 where b: "run_body src it ag g = Inr (ag1, g1)"
    and l: "run_loop src its ag1 g1 = Inr (ag', g')"
    by (auto split: sum.splits)
  let ?d = "\<lambda>arm. best_cumulative_reward (MABproblem ag) - distribution (MABproblem ag) ! arm"
  from run_body_Inr[OF Cons.prems(1) b] obtain arm gc
    where c: "choose_arm src (ag\<lparr>iteration := Some it\<rparr>) g = Inr (arm, gc)"
      and less: "arm < num_arms (MABproblem ag)"
      and r1: "regret ag1 = regret ag + ?d arm"
      and h1: "regret_history ag1 = regret_history ag @ [regret ag + ?d arm]"
    by auto
  from Cons.prems(1) less have d0: "0 \<le> ?d arm"
    by (intro regret_step_nonneg) (simp_all add: wf_agent_def)
  from run_body_wf[OF Cons.prems(1) b] have w1: "wf_agent ag1" and m1: "MABproblem ag1 = MABproblem ag"
    by simp_all
  have s1: "sorted (regret_history ag1)"
  proof -
    have "\<forall>x\<in>set (regret_history ag). x \<le> last (regret_history ag)"
      using Cons.prems(4) by (auto intro: sorted_le_last)
    with Cons.prems(4,5) d0 show ?thesis
      by (auto simp: h1 sorted_append)
  qed
  have n1: "regret_history ag1 \<noteq> []" and l1: "last (regret_history ag1) = regret ag1"
    by (simp_all add: h1 r1)
  from Cons.IH[OF w1 l n1 s1 l1] c b r1 h1 m1 Cons.prems(3) show ?case
    by (simp add: algebra_simps)
qed

text \<open>
  Claim C4. Start any policy from its constructor's state and let \<^verbatim>\<open>run(n)\<close> complete,
  \<open>n \<ge> 0\<close>: the regret history has \<open>n + 1\<close> entries, the first is \<open>0\<close>, the entries
  never decrease, the last is the cumulative regret, and the cumulative regret is the
  sum, over the \<open>n\<close> arms chosen round by round, of
  \<^verbatim>\<open>best_cumulative_reward - distribution[arm]\<close>. The run does complete for every usable
  policy.
\<close>

theorem regret_history_after_run:
  assumes "wf_env e" "belief_fits (num_arms e) p"
  shows "(usable p \<longrightarrow> (\<exists>ag g'. run src (int n) (AbstractMABAlgorithm_init e p) g = Inr (ag, g')))
    \<and> (\<forall>ag g'. run src (int n) (AbstractMABAlgorithm_init e p) g = Inr (ag, g')
          \<longrightarrow> length (regret_history ag) = n + 1
            \<and> regret_history ag ! 0 = 0
            \<and> sorted (regret_history ag)
            \<and> last (regret_history ag) = regret ag
            \<and> length (chosen_arms src [0..<n] (AbstractMABAlgorithm_init e p) g) = n
            \<and> regret ag
                = sum_list (map (\<lambda>arm. best_cumulative_reward e - distribution e ! arm)
                             (chosen_arms src [0..<n] (AbstractMABAlgorithm_init e p) g)))"
proof (intro conjI allI impI)
  let ?A = "AbstractMABAlgorithm_init e p"
  have wf: "wf_agent ?A" using assms by (rule wf_agent_init)
  {
    assume "usable p"
    then have "usable (belief ?A)" by (simp add: AbstractMABAlgorithm_init_def)
    from run_total[OF wf this] show "\<exists>ag g'. run src (int n) ?A g = Inr (ag, g')" .
  }
  fix ag g' assume r: "run src (int n) ?A g = Inr (ag, g')"
  have i1: "regret_history ?A \<noteq> []" and i2: "sorted (regret_history ?A)"
    and i3: "last (regret_history ?A) = regret ?A"
    by (simp_all add: AbstractMABAlgorithm_init_def)
  from r have l: "run_loop src [0..<n] ?A g = Inr (ag, g')" by (simp add: run_def)
  note inv = run_loop_regret[OF wf l i1 i2 i3]
  from inv show len: "length (regret_history ag) = n + 1"
    by (simp add: AbstractMABAlgorithm_init_def)
  from inv have "hd (regret_history ag) = 0" by (simp add: AbstractMABAlgorithm_init_def)
  with len show "regret_history ag ! 0 = 0" by (cases "regret_history ag") auto
  from inv show "sorted (regret_history ag)" by simp
  from inv show "last (regret_history ag) = regret ag" by simp
  from inv show "length (chosen_arms src [0..<n] ?A g) = n" by simp
  from inv show "regret ag = sum_list (map (\<lambda>arm. best_cumulative_reward e - distribution e ! arm)
                             (chosen_arms src [0..<n] ?A g))"
    by (simp add: AbstractMABAlgorithm_init_def)
qed

theorem regret_history_after_run_witness:
  "wf_env FruitMachine \<and> belief_fits (num_arms FruitMachine) (UniformExploration [1, 1, 1])
   \<and> usable (UniformExploration [1, 1, 1])
   \<and> run replay 2 (UniformExploration_init FruitMachine 1) [1 / 5, 9 / 10]
       = Inr (\<lparr>MABproblem = FruitMachine, N_a = [1, 1, 0], regret = 3 / 5,
                regret_history = [0, 2 / 5, 3 / 5], iteration = Some 1,
                belief = UniformExploration [1, 0, 1]\<rparr>, [])
   \<and> length [0, 2 / 5, 3 / 5 :: real] = 2 + 1
   \<and> [0, 2 / 5, 3 / 5 :: real] ! 0 = 0
   \<and> sorted [0, 2 / 5, 3 / 5 :: real]
   \<and> last [0, 2 / 5, 3 / 5 :: real] = 3 / 5
   \<and> (3 / 5 :: real)
       = sum_list (map (\<lambda>arm. best_cumulative_reward FruitMachine - distribution FruitMachine ! arm)
                    (chosen_arms replay [0..<2] (UniformExploration_init FruitMachine 1)
                       [1 / 5, 9 / 10]))"
proof -
  have b: "belief_fits (num_arms FruitMachine) (UniformExploration [1, 1, 1])"
    by (simp add: FruitMachine_def)
  note t = regret_history_after_run [OF wf_FruitMachine b, of replay 2 "[1 / 5, 9 / 10]",
      unfolded uniform_init_FruitMachine]
  from t run_uniform_two_rounds wf_FruitMachine b show ?thesis by simp
qed

subsection \<open>Uniform exploration\<close>

lemma np_argmin_is_Min:
  assumes "N \<noteq> []"
  shows "\<exists>arm. np_argmin N = Inr arm \<and> arm < length N \<and> N ! arm = Min (set N)
    \<and> (\<forall>j<arm. Min (set N) < N ! j)"
proof -
  from np_argmin_first[OF assms] obtain r where r: "np_argmin N = Inr r" "r < length N"
    "\<forall>j<length N. N ! r \<le> N ! j" "\<forall>j<r. N ! r < N ! j" by auto
  have "Min (set N) = N ! r"
  proof (rule Min_eqI)
    show "finite (set N)" by simp
    show "N ! r \<in> set N" using r(2) by simp
    fix y assume "y \<in> set N"
    then obtain j where "j < length N" "N ! j = y" by (auto simp: in_set_conv_nth)
    with r(3) show "N ! r \<le> y" by auto
  qed
  with r show ?thesis by auto
qed

lemma uniform_step_balanced:
  fixes N :: "nat list"
  assumes "\<forall>i<length N. \<forall>j<length N. N ! i \<le> N ! j + 1"
    "arm < length N" "\<forall>j<length N. N ! arm \<le> N ! j"
  shows "\<forall>i<length N. \<forall>j<length N.
           N[arm := N ! arm + 1] ! i \<le> N[arm := N ! arm + 1] ! j + 1"
  using assms by (auto simp: nth_list_update) (metis le_SucI)+

lemma run_body_uniform:
  assumes "wf_agent ag" "belief ag = UniformExploration ps"
    "\<forall>i<length (N_a ag). \<forall>j<length (N_a ag). N_a ag ! i \<le> N_a ag ! j + 1"
    "run_body src it ag g = Inr (ag', g')"
  shows "(\<exists>ps'. belief ag' = UniformExploration ps')
    \<and> (\<forall>i<length (N_a ag'). \<forall>j<length (N_a ag'). N_a ag' ! i \<le> N_a ag' ! j + 1)"
proof -
  from run_body_Inr[OF assms(1,4)] obtain arm g1 reward p where
    c: "choose_arm src (ag\<lparr>iteration := Some it\<rparr>) g = Inr (arm, g1)"
    and less: "arm < num_arms (MABproblem ag)"
    and u: "update_belief_policy ((N_a ag)[arm := N_a ag ! arm + 1]) (belief ag) arm reward = Inr p"
    and n': "N_a ag' = (N_a ag)[arm := N_a ag ! arm + 1]" and b': "belief ag' = p"
    by auto
  from c assms(2) have a: "np_argmin (N_a ag) = Inr arm"
    by (simp add: choose_arm_def with_gen_def split: sum.splits)
  from assms(1) less have ne: "N_a ag \<noteq> []" and ln: "arm < length (N_a ag)"
    by (auto simp: wf_agent_def)
  from np_argmin_first[OF ne] a have mn: "\<forall>j<length (N_a ag). N_a ag ! arm \<le> N_a ag ! j"
    by auto
  from u assms(2) obtain ps' where "p = UniformExploration ps'"
    by (auto split: sum.splits)
  with b' have "\<exists>ps'. belief ag' = UniformExploration ps'" by simp
  moreover from uniform_step_balanced[OF assms(3) ln mn] n'
  have "\<forall>i<length (N_a ag'). \<forall>j<length (N_a ag'). N_a ag' ! i \<le> N_a ag' ! j + 1"
    by simp
  ultimately show ?thesis by simp
qed

lemma run_loop_uniform:
  assumes "wf_agent ag" "belief ag = UniformExploration ps"
    "\<forall>i<length (N_a ag). \<forall>j<length (N_a ag). N_a ag ! i \<le> N_a ag ! j + 1"
    "run_loop src its ag g = Inr (ag', g')"
  shows "\<forall>i<length (N_a ag'). \<forall>j<length (N_a ag'). N_a ag' ! i \<le> N_a ag' ! j + 1"
  using assms
proof (induction its arbitrary: ag g ps)
  case Nil
  then show ?case by simp
next
  case (Cons it its)
  from Cons.prems(4) obtain ag1 g1 where b: "run_body src it ag g = Inr (ag1, g1)"
    and l: "run_loop src its ag1 g1 = Inr (ag', g')"
    by (auto split: sum.splits)
  from run_body_uniform[OF Cons.prems(1,2,3) b] obtain ps' where
    "belief ag1 = UniformExploration ps'"
    "\<forall>i<length (N_a ag1). \<forall>j<length (N_a ag1). N_a ag1 ! i \<le> N_a ag1 ! j + 1" by auto
  with run_body_wf[OF Cons.prems(1) b] l show ?case
    by (intro Cons.IH[of ag1 ps' g1]) auto
qed

text \<open>
  Claim C6. \<^verbatim>\<open>UniformExploration.choose_arm\<close> returns the lowest index among the arms
  whose pull count is minimal (and draws nothing). Hence \<^verbatim>\<open>run(n)\<close> on a freshly built
  \<^verbatim>\<open>UniformExploration\<close> completes, for every \<open>n \<ge> 0\<close>, with
  \<open>max(N_a) - min(N_a) \<le> 1\<close>.
\<close>

theorem uniform_exploration_round_robin:
  assumes "wf_env e"
  shows "(belief ag = UniformExploration ps \<and> N_a ag \<noteq> [] \<longrightarrow>
            (\<exists>arm. choose_arm src ag g = Inr (arm, g) \<and> arm < length (N_a ag)
               \<and> N_a ag ! arm = Min (set (N_a ag))
               \<and> (\<forall>j<arm. Min (set (N_a ag)) < N_a ag ! j)))
    \<and> (\<exists>ag' g'. run src (int n) (UniformExploration_init e p0) g = Inr (ag', g')
          \<and> length (N_a ag') = num_arms e
          \<and> Max (set (N_a ag')) \<le> Min (set (N_a ag')) + 1
          \<and> Max (set (N_a ag')) - Min (set (N_a ag')) \<le> 1)"
proof (intro conjI impI)
  assume "belief ag = UniformExploration ps \<and> N_a ag \<noteq> []"
  with np_argmin_is_Min[of "N_a ag"]
  show "\<exists>arm. choose_arm src ag g = Inr (arm, g) \<and> arm < length (N_a ag)
               \<and> N_a ag ! arm = Min (set (N_a ag))
               \<and> (\<forall>j<arm. Min (set (N_a ag)) < N_a ag ! j)"
    by (auto simp: choose_arm_def with_gen_def)
next
  let ?A = "UniformExploration_init e p0"
  have A: "?A = AbstractMABAlgorithm_init e (UniformExploration (replicate (num_arms e) p0))"
    by (simp add: UniformExploration_init_def)
  have wf: "wf_agent ?A" unfolding A using assms by (intro wf_agent_init) simp_all
  have us: "usable (belief ?A)" and be: "belief ?A = UniformExploration (replicate (num_arms e) p0)"
    by (simp_all add: A AbstractMABAlgorithm_init_def)
  have b0: "\<forall>i<length (N_a ?A). \<forall>j<length (N_a ?A). N_a ?A ! i \<le> N_a ?A ! j + 1"
    by (simp add: A AbstractMABAlgorithm_init_def)
  from run_total[OF wf us, of src "int n" g] obtain ag' g' where r: "run src (int n) ?A g = Inr (ag', g')" by blast
  from run_wf[OF wf r] have w': "wf_agent ag'" and m': "MABproblem ag' = e"
    by (simp_all add: A AbstractMABAlgorithm_init_def)
  then have len: "length (N_a ag') = num_arms e" and ne: "N_a ag' \<noteq> []"
    by (auto simp: wf_agent_def wf_env_def)
  from r have "run_loop src [0..<n] ?A g = Inr (ag', g')" by (simp add: run_def)
  from run_loop_uniform[OF wf be b0 this]
  have bal: "\<forall>i<length (N_a ag'). \<forall>j<length (N_a ag'). N_a ag' ! i \<le> N_a ag' ! j + 1" .
  have "Max (set (N_a ag')) \<in> set (N_a ag')" "Min (set (N_a ag')) \<in> set (N_a ag')"
    using ne by (auto intro!: Max_in Min_in)
  then obtain i j where "i < length (N_a ag')" "N_a ag' ! i = Max (set (N_a ag'))"
    "j < length (N_a ag')" "N_a ag' ! j = Min (set (N_a ag'))"
    by (auto simp: in_set_conv_nth)
  with bal have mm: "Max (set (N_a ag')) \<le> Min (set (N_a ag')) + 1" by metis
  with r len show "\<exists>ag' g'. run src (int n) ?A g = Inr (ag', g')
          \<and> length (N_a ag') = num_arms e
          \<and> Max (set (N_a ag')) \<le> Min (set (N_a ag')) + 1
          \<and> Max (set (N_a ag')) - Min (set (N_a ag')) \<le> 1"
    by auto
qed

theorem uniform_exploration_round_robin_witness:
  "wf_env FruitMachine
   \<and> (\<exists>arm. choose_arm replay (UniformExploration_init FruitMachine 1\<lparr>N_a := [2, 1, 1]\<rparr>) [1 / 2]
              = Inr (arm, [1 / 2]) \<and> arm < length [2, 1, 1 :: nat] \<and> [2, 1, 1 :: nat] ! arm = 1
              \<and> (\<forall>j<arm. 1 < [2, 1, 1 :: nat] ! j))
   \<and> (\<exists>ag' g'. run replay 2 (UniformExploration_init FruitMachine 1) [1 / 5, 9 / 10] = Inr (ag', g')
         \<and> Max (set (N_a ag')) - Min (set (N_a ag')) \<le> 1)"
proof -
  let ?ag = "UniformExploration_init FruitMachine 1\<lparr>N_a := [2, 1, 1]\<rparr>"
  have b: "belief ?ag = UniformExploration (replicate 3 1) \<and> N_a ?ag \<noteq> []"
    by (simp add: UniformExploration_init_def AbstractMABAlgorithm_init_def FruitMachine_def)
  have m: "Min (set (N_a ?ag)) = 1" "N_a ?ag = [2, 1, 1]" by simp_all
  from uniform_exploration_round_robin [OF wf_FruitMachine, of ?ag "replicate 3 1" replay "[1 / 2]" 2 1] b
  have 1: "\<exists>arm. choose_arm replay ?ag [1 / 2] = Inr (arm, [1 / 2]) \<and> arm < length [2, 1, 1 :: nat]
     \<and> [2, 1, 1 :: nat] ! arm = 1 \<and> (\<forall>j<arm. 1 < [2, 1, 1 :: nat] ! j)"
    by (simp only: m) simp
  from uniform_exploration_round_robin [OF wf_FruitMachine, of ?ag "replicate 3 1" replay "[1 / 5, 9 / 10]" 2 1]
  have 2: "\<exists>ag' g'. run replay 2 (UniformExploration_init FruitMachine 1) [1 / 5, 9 / 10] = Inr (ag', g')
         \<and> Max (set (N_a ag')) - Min (set (N_a ag')) \<le> 1"
    by auto
  from 1 2 wf_FruitMachine show ?thesis by blast
qed

subsection \<open>The Beta counts of the Bayesian policies\<close>

lemma same_class_refl [simp]: "same_class p p"
  by (cases p) auto

lemma same_class_trans: "same_class p q \<Longrightarrow> same_class q r \<Longrightarrow> same_class p r"
  by (cases p; cases q; cases r) auto

lemma update_belief_policy_same_class:
  "update_belief_policy N p arm reward = Inr p' \<Longrightarrow> same_class p p'"
  by (cases p) (auto split: sum.splits)

lemma run_body_same_class:
  assumes "wf_agent ag" "run_body src it ag g = Inr (ag', g')"
  shows "same_class (belief ag) (belief ag')"
  using run_body_Inr[OF assms] by (auto dest: update_belief_policy_same_class)

lemma run_loop_same_class:
  assumes "wf_agent ag" "run_loop src its ag g = Inr (ag', g')"
  shows "same_class (belief ag) (belief ag')"
  using assms
proof (induction its arbitrary: ag g)
  case Nil
  then show ?case by simp
next
  case (Cons it its)
  from Cons.prems(2) obtain ag1 g1 where b: "run_body src it ag g = Inr (ag1, g1)"
    and l: "run_loop src its ag1 g1 = Inr (ag', g')"
    by (auto split: sum.splits)
  from run_body_same_class[OF Cons.prems(1) b] Cons.IH[OF _ l] run_body_wf[OF Cons.prems(1) b]
  show ?case by (auto intro: same_class_trans)
qed

lemma update_belief_policy_beta:
  assumes "update_belief_policy N p arm reward = Inr p'" "beta_counts p = Some (as, bs)"
  shows "arm < length as \<and> arm < length bs
    \<and> beta_counts p' = Some (as[arm := as ! arm + real_of_int reward],
                              bs[arm := bs ! arm + real_of_int (1 - reward)])"
  using assms by (cases p) (auto simp: beta_update_def split: if_splits)

lemma run_body_conjugate:
  assumes "wf_agent ag" "beta_counts (belief ag) = Some (as, bs)"
    "\<forall>i<num_arms (MABproblem ag). as ! i + bs ! i = real (N_a ag ! i) + c0"
    "run_body src it ag g = Inr (ag', g')"
  shows "\<exists>as' bs'. beta_counts (belief ag') = Some (as', bs')
    \<and> (\<forall>i<num_arms (MABproblem ag). as' ! i + bs' ! i = real (N_a ag' ! i) + c0)"
proof -
  from run_body_Inr[OF assms(1,4)] obtain arm reward p where
    less: "arm < num_arms (MABproblem ag)" and r01: "reward = 0 \<or> reward = 1"
    and u: "update_belief_policy ((N_a ag)[arm := N_a ag ! arm + 1]) (belief ag) arm reward = Inr p"
    and n': "N_a ag' = (N_a ag)[arm := N_a ag ! arm + 1]" and b': "belief ag' = p"
    by (elim exE conjE) simp
  from update_belief_policy_beta[OF u assms(2)]
  have la: "arm < length as" and lb: "arm < length bs"
    and bc: "beta_counts p = Some (as[arm := as ! arm + real_of_int reward],
                              bs[arm := bs ! arm + real_of_int (1 - reward)])" by simp_all
  from assms(1) less have ln: "arm < length (N_a ag)" by (simp add: wf_agent_def)
  have "as[arm := as ! arm + real_of_int reward] ! i
        + bs[arm := bs ! arm + real_of_int (1 - reward)] ! i
        = real ((N_a ag)[arm := N_a ag ! arm + 1] ! i) + c0"
    if "i < num_arms (MABproblem ag)" for i
    using that assms(3) la lb ln r01 by (cases "i = arm") auto
  with bc b' n' show ?thesis by simp
qed

lemma run_loop_conjugate:
  assumes "wf_agent ag" "beta_counts (belief ag) = Some (as, bs)"
    "\<forall>i<num_arms (MABproblem ag). as ! i + bs ! i = real (N_a ag ! i) + c0"
    "run_loop src its ag g = Inr (ag', g')"
  shows "\<exists>as' bs'. beta_counts (belief ag') = Some (as', bs')
    \<and> (\<forall>i<num_arms (MABproblem ag). as' ! i + bs' ! i = real (N_a ag' ! i) + c0)"
  using assms
proof (induction its arbitrary: ag g as bs)
  case Nil
  then show ?case by simp
next
  case (Cons it its)
  from Cons.prems(4) obtain ag1 g1 where b: "run_body src it ag g = Inr (ag1, g1)"
    and l: "run_loop src its ag1 g1 = Inr (ag', g')"
    by (auto split: sum.splits)
  from run_body_conjugate[OF Cons.prems(1,2,3) b] obtain as1 bs1 where
    1: "beta_counts (belief ag1) = Some (as1, bs1)"
    "\<forall>i<num_arms (MABproblem ag). as1 ! i + bs1 ! i = real (N_a ag1 ! i) + c0" by auto
  from run_body_wf[OF Cons.prems(1) b] have w: "wf_agent ag1" and m: "MABproblem ag1 = MABproblem ag"
    by simp_all
  from Cons.IH[OF w 1(1) _ l] 1(2) m show ?case by simp
qed

text \<open>
  Claim C7. In \<^verbatim>\<open>BayesianUCB\<close> and in \<^verbatim>\<open>ThompsonSamping\<close>, \<^verbatim>\<open>update_belief(arm, reward)\<close>
  with a reward of \<open>0\<close> or \<open>1\<close> adds \<open>reward\<close> to \<^verbatim>\<open>a[arm]\<close> and \<open>1 - reward\<close> to
  \<^verbatim>\<open>b[arm]\<close>, one of which is \<open>1\<close> and the other \<open>0\<close>. Built with the same positive
  initial count \<open>c\<close> for \<^verbatim>\<open>a\<close> and \<^verbatim>\<open>b\<close> (the default is \<open>1\<close>), either agent completes
  \<^verbatim>\<open>run(n)\<close> for every \<open>n \<ge> 0\<close>, and afterwards \<open>a[arm] + b[arm] = N_a[arm] + 2 c\<close> for
  every arm.
\<close>

theorem conjugate_counts:
  assumes "wf_env e" "0 < c"
  shows "(arm < length as \<and> arm < length bs \<and> (reward = 0 \<or> reward = 1) \<longrightarrow>
            update_belief_policy N (ThompsonSamping as bs) arm reward
              = Inr (ThompsonSamping (as[arm := as ! arm + real_of_int reward])
                       (bs[arm := bs ! arm + real_of_int (1 - reward)]))
          \<and> update_belief_policy N (BayesianUCB sigma as bs) arm reward
              = Inr (BayesianUCB sigma (as[arm := as ! arm + real_of_int reward])
                       (bs[arm := bs ! arm + real_of_int (1 - reward)]))
          \<and> (real_of_int reward = 1 \<and> real_of_int (1 - reward) = 0
              \<or> real_of_int reward = 0 \<and> real_of_int (1 - reward) = 1))
    \<and> (\<exists>ag g' as' bs'. run src (int n) (ThompsonSamping_init e c c) g = Inr (ag, g')
          \<and> belief ag = ThompsonSamping as' bs'
          \<and> (\<forall>a<num_arms e. as' ! a + bs' ! a = real (N_a ag ! a) + 2 * c))
    \<and> (\<exists>ag g' as' bs'. run src (int n) (BayesianUCB_init e sigma c c) g = Inr (ag, g')
          \<and> belief ag = BayesianUCB sigma as' bs'
          \<and> (\<forall>a<num_arms e. as' ! a + bs' ! a = real (N_a ag ! a) + 2 * c))"
proof (intro conjI impI)
  assume "arm < length as \<and> arm < length bs \<and> (reward = 0 \<or> reward = 1)"
  then show "update_belief_policy N (ThompsonSamping as bs) arm reward
              = Inr (ThompsonSamping (as[arm := as ! arm + real_of_int reward])
                       (bs[arm := bs ! arm + real_of_int (1 - reward)]))"
    "update_belief_policy N (BayesianUCB sigma as bs) arm reward
              = Inr (BayesianUCB sigma (as[arm := as ! arm + real_of_int reward])
                       (bs[arm := bs ! arm + real_of_int (1 - reward)]))"
    "real_of_int reward = 1 \<and> real_of_int (1 - reward) = 0
              \<or> real_of_int reward = 0 \<and> real_of_int (1 - reward) = 1"
    by (auto simp: beta_update_def)
next
  let ?p = "ThompsonSamping (replicate (num_arms e) c) (replicate (num_arms e) c)"
  let ?A = "AbstractMABAlgorithm_init e ?p"
  have A: "ThompsonSamping_init e c c = ?A" by (simp add: ThompsonSamping_init_def)
  have wf: "wf_agent ?A" using assms by (intro wf_agent_init) simp_all
  have us: "usable (belief ?A)" using assms(2)
    by (simp add: AbstractMABAlgorithm_init_def list_all_length)
  from run_total[OF wf us, of src "int n" g] obtain ag g' where r: "run src (int n) ?A g = Inr (ag, g')"
    by blast
  then have l: "run_loop src [0..<n] ?A g = Inr (ag, g')" by (simp add: run_def)
  have bc: "beta_counts (belief ?A) = Some (replicate (num_arms e) c, replicate (num_arms e) c)"
    by (simp add: AbstractMABAlgorithm_init_def)
  have i0: "\<forall>i<num_arms (MABproblem ?A).
      replicate (num_arms e) c ! i + replicate (num_arms e) c ! i = real (N_a ?A ! i) + 2 * c"
    by (simp add: AbstractMABAlgorithm_init_def)
  from run_loop_conjugate[OF wf bc i0 l] obtain as' bs' where
    1: "beta_counts (belief ag) = Some (as', bs')"
    "\<forall>i<num_arms e. as' ! i + bs' ! i = real (N_a ag ! i) + 2 * c"
    by (auto simp: AbstractMABAlgorithm_init_def)
  from run_loop_same_class[OF wf l] have "same_class ?p (belief ag)"
    by (simp add: AbstractMABAlgorithm_init_def)
  with 1(1) have "belief ag = ThompsonSamping as' bs'" by (cases "belief ag") auto
  with r 1(2) show "\<exists>ag g' as' bs'. run src (int n) (ThompsonSamping_init e c c) g = Inr (ag, g')
          \<and> belief ag = ThompsonSamping as' bs'
          \<and> (\<forall>a<num_arms e. as' ! a + bs' ! a = real (N_a ag ! a) + 2 * c)"
    unfolding A by blast
next
  let ?p = "BayesianUCB sigma (replicate (num_arms e) c) (replicate (num_arms e) c)"
  let ?A = "AbstractMABAlgorithm_init e ?p"
  have A: "BayesianUCB_init e sigma c c = ?A" by (simp add: BayesianUCB_init_def)
  have wf: "wf_agent ?A" using assms by (intro wf_agent_init) simp_all
  have us: "usable (belief ?A)" by (simp add: AbstractMABAlgorithm_init_def)
  from run_total[OF wf us, of src "int n" g] obtain ag g' where r: "run src (int n) ?A g = Inr (ag, g')"
    by blast
  then have l: "run_loop src [0..<n] ?A g = Inr (ag, g')" by (simp add: run_def)
  have bc: "beta_counts (belief ?A) = Some (replicate (num_arms e) c, replicate (num_arms e) c)"
    by (simp add: AbstractMABAlgorithm_init_def)
  have i0: "\<forall>i<num_arms (MABproblem ?A).
      replicate (num_arms e) c ! i + replicate (num_arms e) c ! i = real (N_a ?A ! i) + 2 * c"
    by (simp add: AbstractMABAlgorithm_init_def)
  from run_loop_conjugate[OF wf bc i0 l] obtain as' bs' where
    1: "beta_counts (belief ag) = Some (as', bs')"
    "\<forall>i<num_arms e. as' ! i + bs' ! i = real (N_a ag ! i) + 2 * c"
    by (auto simp: AbstractMABAlgorithm_init_def)
  from run_loop_same_class[OF wf l] have "same_class ?p (belief ag)"
    by (simp add: AbstractMABAlgorithm_init_def)
  with 1(1) have "belief ag = BayesianUCB sigma as' bs'" by (cases "belief ag") auto
  with r 1(2) show "\<exists>ag g' as' bs'. run src (int n) (BayesianUCB_init e sigma c c) g = Inr (ag, g')
          \<and> belief ag = BayesianUCB sigma as' bs'
          \<and> (\<forall>a<num_arms e. as' ! a + bs' ! a = real (N_a ag ! a) + 2 * c)"
    unfolding A by blast
qed

theorem conjugate_counts_witness:
  "wf_env FruitMachine \<and> (0 :: real) < 1
   \<and> update_belief_policy [1, 0, 0] (ThompsonSamping [1, 1, 1] [1, 1, 1]) 0 1
       = Inr (ThompsonSamping [2, 1, 1] [1, 1, 1])
   \<and> update_belief_policy [1, 0, 0] (BayesianUCB 3 [1, 1, 1] [1, 1, 1]) 0 0
       = Inr (BayesianUCB 3 [1, 1, 1] [2, 1, 1])
   \<and> (\<exists>ag g' as' bs'. run replay 2 (ThompsonSamping_init FruitMachine 1 1) [] = Inr (ag, g')
          \<and> belief ag = ThompsonSamping as' bs'
          \<and> (\<forall>a<num_arms FruitMachine. as' ! a + bs' ! a = real (N_a ag ! a) + 2))
   \<and> (\<exists>ag g' as' bs'. run replay 2 (BayesianUCB_init FruitMachine 3 1 1) [] = Inr (ag, g')
          \<and> belief ag = BayesianUCB 3 as' bs'
          \<and> (\<forall>a<num_arms FruitMachine. as' ! a + bs' ! a = real (N_a ag ! a) + 2))"
  using conjugate_counts [OF wf_FruitMachine, of 1 0 "[1, 1, 1]" "[1, 1, 1]" 1 "[1, 0, 0]" 3 replay 2 "[]"]
    conjugate_counts [OF wf_FruitMachine, of 1 0 "[1, 1, 1]" "[1, 1, 1]" 0 "[1, 0, 0]" 3 replay 2 "[]"]
    wf_FruitMachine
  by simp

subsection \<open>The scores of \<^verbatim>\<open>UCB\<close>\<close>

lemma ucb_scores_nth:
  assumes "a < length ps" "a < length N"
  shows "ucb_scores ps N t ! a = ps ! a + sqrt (2 * ln (real t) / (real (N ! a) + 1))"
  using assms by (simp add: ucb_scores_def)

lemma update_belief_policy_mean:
  assumes "update_belief_policy N p arm reward = Inr p'" "probabilities_of p = Some ps"
  shows "\<exists>ps'. probabilities_of p' = Some ps' \<and> length ps' = length ps
    \<and> (\<forall>i. i \<noteq> arm \<longrightarrow> ps' ! i = ps ! i)"
  using assms by (cases p) (auto simp: running_mean_def split: if_splits)

lemma run_body_unpulled:
  assumes "wf_agent ag" "probabilities_of (belief ag) = Some ps"
    "\<forall>i<num_arms (MABproblem ag). N_a ag ! i = 0 \<longrightarrow> ps ! i = p0"
    "run_body src it ag g = Inr (ag', g')"
  shows "\<exists>ps'. probabilities_of (belief ag') = Some ps'
    \<and> (\<forall>i<num_arms (MABproblem ag). N_a ag' ! i = 0 \<longrightarrow> ps' ! i = p0)"
proof -
  from run_body_Inr[OF assms(1,4)] obtain arm reward p where
    less: "arm < num_arms (MABproblem ag)"
    and u: "update_belief_policy ((N_a ag)[arm := N_a ag ! arm + 1]) (belief ag) arm reward = Inr p"
    and n': "N_a ag' = (N_a ag)[arm := N_a ag ! arm + 1]" and b': "belief ag' = p"
    by (elim exE conjE) simp
  from update_belief_policy_mean[OF u assms(2)] obtain ps' where
    p': "probabilities_of p = Some ps'" "\<forall>i. i \<noteq> arm \<longrightarrow> ps' ! i = ps ! i" by auto
  from assms(1) less have ln: "arm < length (N_a ag)" by (simp add: wf_agent_def)
  have "ps' ! i = p0" if "i < num_arms (MABproblem ag)" "N_a ag' ! i = 0" for i
  proof -
    from that(2) ln have "i \<noteq> arm" by (auto simp: n')
    with that assms(3) p'(2) show ?thesis by (simp add: n')
  qed
  with p'(1) b' show ?thesis by simp
qed

lemma run_loop_unpulled:
  assumes "wf_agent ag" "probabilities_of (belief ag) = Some ps"
    "\<forall>i<num_arms (MABproblem ag). N_a ag ! i = 0 \<longrightarrow> ps ! i = p0"
    "run_loop src its ag g = Inr (ag', g')"
  shows "\<exists>ps'. probabilities_of (belief ag') = Some ps'
    \<and> (\<forall>i<num_arms (MABproblem ag). N_a ag' ! i = 0 \<longrightarrow> ps' ! i = p0)"
  using assms
proof (induction its arbitrary: ag g ps)
  case Nil
  then show ?case by simp
next
  case (Cons it its)
  from Cons.prems(4) obtain ag1 g1 where b: "run_body src it ag g = Inr (ag1, g1)"
    and l: "run_loop src its ag1 g1 = Inr (ag', g')"
    by (auto split: sum.splits)
  from run_body_unpulled[OF Cons.prems(1,2,3) b] obtain ps1 where
    1: "probabilities_of (belief ag1) = Some ps1"
    "\<forall>i<num_arms (MABproblem ag). N_a ag1 ! i = 0 \<longrightarrow> ps1 ! i = p0" by auto
  from run_body_wf[OF Cons.prems(1) b] have w: "wf_agent ag1" and m: "MABproblem ag1 = MABproblem ag"
    by simp_all
  from Cons.IH[OF w 1(1) _ l] 1(2) m show ?case by simp
qed

text \<open>
  Claim C3. Let a freshly built \<^verbatim>\<open>UCB\<close> play \<open>k\<close> rounds, so that round \<open>t = k + 1\<close> is
  about to be played (\<^verbatim>\<open>run\<close> sets \<^verbatim>\<open>self.iteration\<close> to \<open>k\<close> for it). The \<open>k\<close> rounds
  complete, and \<^verbatim>\<open>choose_arm\<close> in round \<open>t\<close> scores every arm \<open>a\<close> with
  \<open>probabilities[a] + sqrt(2 ln t / (N_a[a] + 1))\<close> and returns the lowest index whose
  score is maximal, drawing nothing. An arm not pulled in the \<open>k\<close> rounds scores
  \<open>initial_probability + sqrt(2 ln t / 1)\<close>.
\<close>

theorem ucb_choose_arm_scores:
  assumes "wf_env e"
  shows "\<exists>ag g1 ps arm.
      run src (int k) (UCB_init e p0) g = Inr (ag, g1)
    \<and> belief ag = UCB ps \<and> length ps = num_arms e \<and> length (N_a ag) = num_arms e
    \<and> choose_arm src (ag\<lparr>iteration := Some k\<rparr>) g1 = Inr (arm, g1)
    \<and> arm < num_arms e
    \<and> (\<forall>a<num_arms e. ucb_scores ps (N_a ag) (k + 1) ! a
          = ps ! a + sqrt (2 * ln (real (k + 1)) / (real (N_a ag ! a) + 1)))
    \<and> (\<forall>a<num_arms e. ucb_scores ps (N_a ag) (k + 1) ! a
          \<le> ucb_scores ps (N_a ag) (k + 1) ! arm)
    \<and> (\<forall>a<arm. ucb_scores ps (N_a ag) (k + 1) ! a < ucb_scores ps (N_a ag) (k + 1) ! arm)
    \<and> (\<forall>a<num_arms e. N_a ag ! a = 0 \<longrightarrow>
          ucb_scores ps (N_a ag) (k + 1) ! a = p0 + sqrt (2 * ln (real (k + 1)) / 1))"
proof -
  let ?p = "UCB (replicate (num_arms e) p0)"
  let ?A = "AbstractMABAlgorithm_init e ?p"
  have A: "UCB_init e p0 = ?A" by (simp add: UCB_init_def)
  have wf: "wf_agent ?A" using assms by (intro wf_agent_init) simp_all
  have us: "usable (belief ?A)" by (simp add: AbstractMABAlgorithm_init_def)
  from run_total[OF wf us, of src "int k" g] obtain ag g1 where r: "run src (int k) ?A g = Inr (ag, g1)"
    by blast
  then have l: "run_loop src [0..<k] ?A g = Inr (ag, g1)" by (simp add: run_def)
  from run_wf[OF wf r] have w: "wf_agent ag" and m: "MABproblem ag = e"
    by (simp_all add: AbstractMABAlgorithm_init_def)
  have pr: "probabilities_of (belief ?A) = Some (replicate (num_arms e) p0)"
    by (simp add: AbstractMABAlgorithm_init_def)
  have i0: "\<forall>i<num_arms (MABproblem ?A). N_a ?A ! i = 0 \<longrightarrow> replicate (num_arms e) p0 ! i = p0"
    by (simp add: AbstractMABAlgorithm_init_def)
  from run_loop_unpulled[OF wf pr i0 l] obtain ps where
    1: "probabilities_of (belief ag) = Some ps"
    "\<forall>i<num_arms e. N_a ag ! i = 0 \<longrightarrow> ps ! i = p0"
    by (auto simp: AbstractMABAlgorithm_init_def)
  from run_loop_same_class[OF wf l] have "same_class ?p (belief ag)"
    by (simp add: AbstractMABAlgorithm_init_def)
  with 1(1) have b: "belief ag = UCB ps" by (cases "belief ag") auto
  from w b m have lp: "length ps = num_arms e" and ln: "length (N_a ag) = num_arms e"
    and pos: "0 < num_arms e"
    by (auto simp: wf_agent_def wf_env_def)
  let ?S = "ucb_scores ps (N_a ag) (k + 1)"
  have lS: "length ?S = num_arms e" using lp ln by (simp add: length_ucb_scores)
  with pos have "?S \<noteq> []" by auto
  from np_argmax_first[OF this] obtain arm where
    am: "np_argmax ?S = Inr arm" "arm < length ?S" "\<forall>j<length ?S. ?S ! j \<le> ?S ! arm"
    "\<forall>j<arm. ?S ! j < ?S ! arm" by auto
  have c: "choose_arm src (ag\<lparr>iteration := Some k\<rparr>) g1 = Inr (arm, g1)"
    using am(1) b by (simp add: choose_arm_def with_gen_def)
  have sc: "\<forall>a<num_arms e. ?S ! a = ps ! a + sqrt (2 * ln (real (k + 1)) / (real (N_a ag ! a) + 1))"
    using lp ln by (simp add: ucb_scores_nth)
  have un: "\<forall>a<num_arms e. N_a ag ! a = 0 \<longrightarrow> ?S ! a = p0 + sqrt (2 * ln (real (k + 1)) / 1)"
    using sc 1(2) by simp
  from r b lp ln c am(2,3,4) sc un lS show ?thesis
    unfolding A by (intro exI[of _ ag] exI[of _ g1] exI[of _ ps] exI[of _ arm]) simp
qed

theorem ucb_choose_arm_scores_witness:
  "wf_env FruitMachine
   \<and> run replay 1 (UCB_init FruitMachine 1) [1 / 5]
       = Inr (\<lparr>MABproblem = FruitMachine, N_a = [1, 0, 0], regret = 2 / 5,
                regret_history = [0, 2 / 5], iteration = Some 0,
                belief = UCB [1, 1, 1]\<rparr>, [])
   \<and> (\<exists>arm. choose_arm replay
          \<lparr>MABproblem = FruitMachine, N_a = [1, 0, 0], regret = 2 / 5,
            regret_history = [0, 2 / 5], iteration = Some 1,
            belief = UCB [1, 1, 1]\<rparr> [] = Inr (arm, [])
        \<and> arm < 3
        \<and> (\<forall>a<3. ucb_scores [1, 1, 1] [1, 0, 0] 2 ! a \<le> ucb_scores [1, 1, 1] [1, 0, 0] 2 ! arm)
        \<and> (\<forall>a<arm. ucb_scores [1, 1, 1] [1, 0, 0] 2 ! a < ucb_scores [1, 1, 1] [1, 0, 0] 2 ! arm))
   \<and> ucb_scores [1, 1, 1] [1, 0, 0] 2 ! 0 = 1 + sqrt (2 * ln 2 / 2)
   \<and> [1, 0, 0 :: nat] ! 2 = 0
   \<and> ucb_scores [1, 1, 1] [1, 0, 0] 2 ! 2 = 1 + sqrt (2 * ln 2 / 1)"
proof -
  from ucb_choose_arm_scores [OF wf_FruitMachine, of replay 1 1 "[1 / 5]"]
  obtain ag g1 ps arm where
    r: "run replay (int 1) (UCB_init FruitMachine 1) [1 / 5] = Inr (ag, g1)"
    and b: "belief ag = UCB ps"
    and c: "choose_arm replay (ag\<lparr>iteration := Some 1\<rparr>) g1 = Inr (arm, g1)"
    and l: "arm < num_arms FruitMachine"
    and s: "\<forall>a<num_arms FruitMachine. ucb_scores ps (N_a ag) (1 + 1) ! a
          = ps ! a + sqrt (2 * ln (real (1 + 1)) / (real (N_a ag ! a) + 1))"
    and m: "\<forall>a<num_arms FruitMachine. ucb_scores ps (N_a ag) (1 + 1) ! a
          \<le> ucb_scores ps (N_a ag) (1 + 1) ! arm"
    and f: "\<forall>a<arm. ucb_scores ps (N_a ag) (1 + 1) ! a < ucb_scores ps (N_a ag) (1 + 1) ! arm"
    and u: "\<forall>a<num_arms FruitMachine. N_a ag ! a = 0 \<longrightarrow>
          ucb_scores ps (N_a ag) (1 + 1) ! a = 1 + sqrt (2 * ln (real (1 + 1)) / 1)"
    by blast
  from r run_ucb_one_round have ag: "ag = \<lparr>MABproblem = FruitMachine, N_a = [1, 0, 0], regret = 2 / 5,
           regret_history = [0, 2 / 5], iteration = Some 0, belief = UCB [1, 1, 1]\<rparr>"
    and g1: "g1 = []" by simp_all
  from b ag have ps: "ps = [1, 1, 1]" by simp
  have n3: "num_arms FruitMachine = 3" by (simp add: FruitMachine_def)
  have two: "(1 + 1 :: nat) = 2" by simp
  from c l m f show ?thesis
    using s[rule_format, of 0] u[rule_format, of 2] run_ucb_one_round wf_FruitMachine
    unfolding ag g1 ps n3 two by simp
qed

subsection \<open>The divisor of the running mean\<close>

lemma np_argmax_error: "np_argmax xs = Inl err \<Longrightarrow> err = ValueError"
  by (cases xs) auto

lemma np_argmin_error: "np_argmin xs = Inl err \<Longrightarrow> err = ValueError"
  by (cases xs) auto

lemma with_gen_error: "with_gen g r = Inl err \<longleftrightarrow> r = Inl err"
  by (auto simp: with_gen_def split: sum.splits)

lemma ts_samples_error: "ts_samples src k as bs g = Inl err \<Longrightarrow> err = ValueError"
  by (induction k arbitrary: g)
    (auto simp: np_random_beta_def split: sum.splits if_splits prod.splits)

lemma choose_arm_policy_no_div: "choose_arm_policy src e N it p g \<noteq> Inl DivideByZero"
proof (cases p)
  case (UniformExploration ps)
  then show ?thesis by (auto simp: with_gen_error dest: np_argmin_error)
next
  case (EpsilonGreedy eps ps)
  then show ?thesis
    by (auto simp: with_gen_error np_randint_def split: prod.splits option.splits if_splits
        dest: np_argmax_error)
next
  case (UCB ps)
  then show ?thesis by (auto simp: with_gen_error split: option.splits dest: np_argmax_error)
next
  case (BayesianUCB sigma as bs)
  then show ?thesis by (auto simp: with_gen_error dest: np_argmax_error)
next
  case (ThompsonSamping as bs)
  then show ?thesis
    by (auto simp: with_gen_error split: sum.splits dest: np_argmax_error ts_samples_error)
qed

lemma update_after_count_no_div:
  assumes "count_pull ag arm = Inr ag1"
  shows "0 < N_a ag1 ! arm \<and> update_belief ag1 arm reward \<noteq> Inl DivideByZero"
proof -
  from assms have n: "arm < length (N_a ag)" "N_a ag1 = (N_a ag)[arm := N_a ag ! arm + 1]"
    and b: "belief ag1 = belief ag"
    by (auto simp: count_pull_def split: if_splits)
  then have pos: "0 < N_a ag1 ! arm" by simp
  have "update_belief_policy (N_a ag1) p arm reward \<noteq> Inl DivideByZero" for p
    using pos by (cases p) (auto simp: running_mean_def beta_update_def split: sum.splits)
  with pos show ?thesis by (auto simp: update_belief_def split: sum.splits)
qed

lemma run_body_no_div: "run_body src it ag g \<noteq> Inl DivideByZero"
proof
  assume a: "run_body src it ag g = Inl DivideByZero"
  let ?ag0 = "ag\<lparr>iteration := Some it\<rparr>"
  from choose_arm_policy_no_div have c: "choose_arm src ?ag0 g \<noteq> Inl DivideByZero"
    by (simp add: choose_arm_def)
  have gr: "get_reward src e arm g1 \<noteq> Inl DivideByZero" for e arm g1
    by (auto simp: get_reward_def py_index_def split: prod.splits)
  have ur: "update_regret ag2 arm \<noteq> Inl DivideByZero" for ag2 arm
    by (auto simp: update_regret_def py_index_def Let_def)
  have cp: "count_pull ?ag0 arm \<noteq> Inl DivideByZero" for arm
    by (auto simp: count_pull_def)
  from a c gr ur cp update_after_count_no_div[of ?ag0] show False
    by (auto simp: run_body_def Let_def split: sum.splits prod.splits)
qed

lemma run_loop_no_div: "run_loop src its ag g \<noteq> Inl DivideByZero"
  by (induction its arbitrary: ag g) (auto split: sum.splits simp: run_body_no_div)

text \<open>
  Claim C9. In a run of \<^verbatim>\<open>UniformExploration\<close>, \<^verbatim>\<open>EpsilonGreedy\<close> or \<^verbatim>\<open>UCB\<close> the running
  mean never divides by zero: \<^verbatim>\<open>run\<close> increments \<^verbatim>\<open>N_a[arm]\<close> before it calls
  \<^verbatim>\<open>update_belief\<close>, so the divisor is positive, and no run, of any length, ends in
  the division error. With a usable policy the run ends in no error at all.
\<close>

theorem running_mean_never_divides_by_zero:
  assumes "wf_agent ag" "keeps_mean (belief ag)"
  shows "run src n ag g \<noteq> Inl DivideByZero
    \<and> (usable (belief ag) \<longrightarrow> (\<exists>ag' g'. run src n ag g = Inr (ag', g')))
    \<and> (\<forall>arm ag1 reward. count_pull ag arm = Inr ag1 \<longrightarrow>
          0 < N_a ag1 ! arm \<and> update_belief ag1 arm reward \<noteq> Inl DivideByZero)"
  using assms run_loop_no_div[of src "[0..<nat n]" ag g] run_total[of ag src n g]
    update_after_count_no_div[of ag]
  by (auto simp: run_def)

theorem running_mean_never_divides_by_zero_witness:
  "wf_agent (UCB_init FruitMachine 1) \<and> keeps_mean (belief (UCB_init FruitMachine 1))
   \<and> usable (belief (UCB_init FruitMachine 1))
   \<and> run replay 1000 (UCB_init FruitMachine 1) [1 / 5, 9 / 10] \<noteq> Inl DivideByZero
   \<and> (\<exists>ag' g'. run replay 1000 (UCB_init FruitMachine 1) [1 / 5, 9 / 10] = Inr (ag', g'))
   \<and> count_pull (UCB_init FruitMachine 1) 2
       = Inr (UCB_init FruitMachine 1\<lparr>N_a := [0, 0, 1]\<rparr>)
   \<and> update_belief (UCB_init FruitMachine 1\<lparr>N_a := [0, 0, 1]\<rparr>) 2 0 \<noteq> Inl DivideByZero"
proof -
  have w: "wf_agent (UCB_init FruitMachine 1)"
    unfolding UCB_init_def using wf_FruitMachine by (intro wf_agent_init) simp_all
  have k: "keeps_mean (belief (UCB_init FruitMachine 1))" "usable (belief (UCB_init FruitMachine 1))"
    by (simp_all add: UCB_init_def AbstractMABAlgorithm_init_def)
  have c: "count_pull (UCB_init FruitMachine 1) 2 = Inr (UCB_init FruitMachine 1\<lparr>N_a := [0, 0, 1]\<rparr>)"
    by (simp add: count_pull_def UCB_init_def AbstractMABAlgorithm_init_def FruitMachine_def
        eval_nat_numeral)
  from running_mean_never_divides_by_zero [OF w k(1), of replay 1000 "[1 / 5, 9 / 10]"] w k c
  show ?thesis by simp
qed

subsection \<open>The samples of \<^verbatim>\<open>ThompsonSamping\<close>\<close>

text \<open>
  Claim C1 says that \<^verbatim>\<open>ThompsonSamping.choose_arm\<close> draws one sample per arm, from that
  arm's own pair, and returns the arm with the largest. On the notebook's machine, with
  the default counts \<open>a = b = [1, 1, 1]\<close> and the nine draws below, the method does
  otherwise. Each of its three iterations calls \<^verbatim>\<open>np.random.beta(self.a, self.b)\<close> on the
  whole arrays and stores the sum of the three values returned: nine draws are used,
  the samples are \<open>[1.1, 2.1, 0.8]\<close> and arm \<open>1\<close> is returned. One draw per arm would use
  three draws, \<open>[0.9, 0.1, 0.1]\<close>, and return arm \<open>0\<close>.
\<close>

theorem thompson_choose_arm_sums_all_arms:
  "ts_samples replay 3 [1, 1, 1] [1, 1, 1]
      [9 / 10, 1 / 10, 1 / 10, 4 / 5, 1 / 2, 4 / 5, 1 / 10, 1 / 10, 3 / 5]
     = Inr ([11 / 10, 21 / 10, 4 / 5], [])
   \<and> choose_arm replay (ThompsonSamping_init FruitMachine 1 1)
        [9 / 10, 1 / 10, 1 / 10, 4 / 5, 1 / 2, 4 / 5, 1 / 10, 1 / 10, 3 / 5]
     = Inr (1, [])
   \<and> spec_thompson_choose_arm replay [1, 1, 1] [1, 1, 1]
        [9 / 10, 1 / 10, 1 / 10, 4 / 5, 1 / 2, 4 / 5, 1 / 10, 1 / 10, 3 / 5]
     = Inr (0, [4 / 5, 1 / 2, 4 / 5, 1 / 10, 1 / 10, 3 / 5])"
  by (simp add: choose_arm_def ThompsonSamping_init_def AbstractMABAlgorithm_init_def
      FruitMachine_def spec_thompson_choose_arm_def np_random_beta_def replay_def
      replay_next_def with_gen_def eval_nat_numeral)

end
